theory Spec2Isabelle
  imports Main "HOL-Library.Word"
begin

section \<open>Node linking of RoamingLibrary\_wNodeLinking\_v2.ino\<close>

text \<open>
  The peer catalog synchronisation of the sketch: the ESP-NOW receive callback
  \<open>onDataReceived\<close>, the send callback registered in \<open>initializeESPNow\<close>, the
  periodic \<open>broadcastFiles\<close> and the liveness sweep of \<open>updateNodeLinking\<close>.
  The global variables of the sketch are the fields of one state record; each function
  takes the state and returns the new one. What the platform supplies (the clock, the
  result of a send, the directory of the SD card) is an explicit argument.
\<close>

subsection \<open>Constants and data\<close>

type_synonym u8 = "8 word"
type_synonym u32 = "32 word"

text \<open>
  A C \<open>int\<close>: 32 bits, read as two's complement (\<open>sint\<close>, \<open><s\<close>); \<open>++\<close> wraps
  around.
\<close>

type_synonym i32 = "32 word"

text \<open>\<open>uint8_t[6]\<close>: six bytes; \<open>memcmp(a, b, 6) == 0\<close> is equality of the six.\<close>

type_synonym macaddr = "u8 \<times> u8 \<times> u8 \<times> u8 \<times> u8 \<times> u8"

definition MAX_PEERS :: int where
  "MAX_PEERS = 20"

definition BROADCAST_INTERVAL :: u32 where
  "BROADCAST_INTERVAL = 2000"

definition PEER_TIMEOUT :: u32 where
  "PEER_TIMEOUT = 10000"

definition MAX_RETRY :: i32 where
  "MAX_RETRY = 3"

text \<open>
  \<open>struct SharedFile\<close>. The two \<open>char[32]\<close> fields hold the bytes of the array;
  \<open>size_t\<close> and \<open>unsigned long\<close> are 32 bits wide on the ESP8266. The struct is laid
  out as \<open>filename\<close> at offset 0, \<open>filesize\<close> at 32, \<open>sourceNode\<close> at 36,
  \<open>nodeSSID\<close> at 42, and two bytes of padding at 74 that bring it to the 76 bytes of
  \<open>sizeof(SharedFile)\<close>. \<open>memcpy\<close> and the copies of the struct carry the padding
  along, so it is a field here.
\<close>

record SharedFile =
  filename :: string
  filesize :: u32
  sourceNode :: macaddr
  nodeSSID :: string
  padding :: string

record PeerInfo =
  mac :: macaddr
  lastSeen :: u32
  ssid :: string

text \<open>\<open>struct SendStatus\<close>.\<close>

record SendStatus =
  success :: bool
  retryCount :: i32
  lastTry :: u32

text \<open>
  The globals \<open>peers\<close>, \<open>remoteFiles\<close>, \<open>sendStatuses\<close>, and the function-local
  statics \<open>failedTransmissions\<close> (of \<open>broadcastFiles\<close>) and \<open>lastBroadcast\<close>
  (of \<open>updateNodeLinking\<close>).
\<close>

record node_state =
  peers :: "PeerInfo list"
  remoteFiles :: "SharedFile list"
  sendStatuses :: "string \<rightharpoonup> SendStatus"
  failedTransmissions :: "SharedFile list"
  lastBroadcast :: u32

definition init_state :: node_state where
  "init_state = \<lparr>peers = [], remoteFiles = [], sendStatuses = Map.empty,
     failedTransmissions = [], lastBroadcast = 0\<rparr>"

subsection \<open>C strings and the bytes of the struct\<close>

text \<open>The bytes before the first NUL.\<close>

definition cstr :: "string \<Rightarrow> string" where
  "cstr s = takeWhile (\<lambda>c. c \<noteq> CHR 0x00) s"

text \<open>
  The \<open>n\<close> bytes of a \<open>char[n]\<close> field whose content is \<open>s\<close>: a list of \<open>n\<close>
  characters is the array itself (a shorter list stands for the array filled up with NULs,
  and of a longer one the first \<open>n\<close> count).
\<close>

definition char_array :: "nat \<Rightarrow> string \<Rightarrow> string" where
  "char_array n s = take n (s @ replicate n (CHR 0x00))"

text \<open>The four bytes of a \<open>size_t\<close>, least significant first, and the six of an address.\<close>

definition le32 :: "u32 \<Rightarrow> u8 list" where
  "le32 w = [ucast w, ucast (drop_bit 8 w), ucast (drop_bit 16 w), ucast (drop_bit 24 w)]"

fun mac_bytes :: "macaddr \<Rightarrow> u8 list" where
  "mac_bytes (m0, m1, m2, m3, m4, m5) = [m0, m1, m2, m3, m4, m5]"

text \<open>
  What lies in memory from \<open>nodeSSID\<close> to the end of the struct (the array and the
  padding), and from \<open>filename\<close> to the end of the struct (all 76 bytes).
\<close>

definition label_memory :: "SharedFile \<Rightarrow> string" where
  "label_memory f = char_array 32 (nodeSSID f) @ char_array 2 (padding f)"

definition image :: "SharedFile \<Rightarrow> u8 list" where
  "image f =
     map of_char (char_array 32 (filename f)) @ le32 (filesize f) @ mac_bytes (sourceNode f)
       @ map of_char (label_memory f)"

text \<open>
  A read up to the first NUL, as \<open>String(buf)\<close> and \<open>strlen\<close> do it, over the memory
  \<open>mem\<close> that lies between the pointer and the end of the struct. It does not stop at
  the end of the array. With no NUL up to the end of the struct the read leaves the
  struct: the behaviour is undefined, and the result is \<open>None\<close>.
\<close>

definition upto_NUL :: "'a \<Rightarrow> 'a list \<Rightarrow> 'a list option" where
  "upto_NUL z mem = (if z \<in> set mem then Some (takeWhile (\<lambda>c. c \<noteq> z) mem) else None)"

text \<open>
  \<open>strcmp(a, b) == 0\<close> over the memory from the two pointers to the ends of their
  structs: byte by byte, until two bytes differ (not equal) or both are NUL (equal). It
  has no bound either; when the end of a struct comes first, the result is \<open>None\<close>.
\<close>

fun strcmp_walk :: "u8 list \<Rightarrow> u8 list \<Rightarrow> bool option" where
  "strcmp_walk [] ys = None"
| "strcmp_walk (x # xs) [] = None"
| "strcmp_walk (x # xs) (y # ys) =
     (if x \<noteq> y then Some False else if x = 0 then Some True else strcmp_walk xs ys)"

text \<open>\<open>strcmp(a.filename, b.filename) == 0\<close> for two structs.\<close>

definition strcmp_eq :: "SharedFile \<Rightarrow> SharedFile \<Rightarrow> bool option" where
  "strcmp_eq a b = strcmp_walk (image a) (image b)"

text \<open>
  \<open>sizeof(SharedFile)\<close> on the ESP8266: 32 + 4 + 6 + 32 bytes, rounded up to the
  4-byte alignment of \<open>size_t\<close>.
\<close>

definition sizeof_SharedFile :: int where
  "sizeof_SharedFile = 76"

subsection \<open>The receive callback\<close>

text \<open>
  The loop over \<open>peers\<close> in \<open>onDataReceived\<close>: the first entry with the sender's
  address gets the new \<open>lastSeen\<close> and \<open>ssid\<close>, and the loop breaks. The second
  component is \<open>peerFound\<close>.
\<close>

fun update_peer :: "macaddr \<Rightarrow> u32 \<Rightarrow> string \<Rightarrow> PeerInfo list \<Rightarrow> PeerInfo list \<times> bool" where
  "update_peer m now s [] = ([], False)"
| "update_peer m now s (peer # rest) =
     (if mac peer = m then (peer\<lparr>lastSeen := now, ssid := s\<rparr> # rest, True)
      else (case update_peer m now s rest of (rest', found) \<Rightarrow> (peer # rest', found)))"

text \<open>
  The loop over \<open>remoteFiles\<close>: the first entry with the same file name (\<open>strcmp\<close>)
  and the same source node (\<open>memcmp\<close>) is overwritten by the received struct, and the
  loop breaks. The second component is \<open>fileFound\<close>. The result is \<open>None\<close> when a
  \<open>strcmp\<close> leaves a struct.
\<close>

fun update_file :: "SharedFile \<Rightarrow> SharedFile list \<Rightarrow> (SharedFile list \<times> bool) option" where
  "update_file receivedFile [] = Some ([], False)"
| "update_file receivedFile (file # rest) =
     (case strcmp_eq file receivedFile of
        None \<Rightarrow> None
      | Some same \<Rightarrow>
          if same \<and> sourceNode file = sourceNode receivedFile
          then Some (receivedFile # rest, True)
          else (case update_file receivedFile rest of
                  None \<Rightarrow> None
                | Some (rest', found) \<Rightarrow> Some (file # rest', found)))"

text \<open>
  \<open>onDataReceived(mac, data, len)\<close>. \<open>data\<close> is the struct that \<open>memcpy\<close> reads from
  the datagram; it is looked at only when \<open>len\<close> is \<open>sizeof(SharedFile)\<close>. \<open>now\<close> is
  the value of the one \<open>millis()\<close> read of the call. The LED and the serial log are not
  part of the state, but the log line builds \<open>String(receivedFile.filename)\<close> and
  \<open>String(receivedFile.nodeSSID)\<close> before anything else, and the label of the peer is
  \<open>String(receivedFile.nodeSSID)\<close>. The result is \<open>None\<close> when one of these reads, or a
  \<open>strcmp\<close> of the loop over \<open>remoteFiles\<close>, leaves the struct.
\<close>

definition onDataReceived ::
  "macaddr \<Rightarrow> SharedFile \<Rightarrow> int \<Rightarrow> u32 \<Rightarrow> node_state \<Rightarrow> node_state option" where
  "onDataReceived m data len now st =
     (if len = sizeof_SharedFile then
        (let receivedFile = data in
         case upto_NUL 0 (image receivedFile) of
           None \<Rightarrow> None
         | Some logged_name \<Rightarrow>
         (case upto_NUL (CHR 0x00) (label_memory receivedFile) of
           None \<Rightarrow> None
         | Some label \<Rightarrow>
         (let (ps, peerFound) = update_peer m now label (peers st);
              ps' = (if \<not> peerFound
                     then ps @ [\<lparr>mac = m, lastSeen = now, ssid = label\<rparr>]
                     else ps)
          in case update_file receivedFile (remoteFiles st) of
               None \<Rightarrow> None
             | Some (fs, fileFound) \<Rightarrow>
                 (let fs' = (if \<not> fileFound then fs @ [receivedFile] else fs)
                  in Some (st\<lparr>peers := ps', remoteFiles := fs'\<rparr>)))))
      else Some st)"

text \<open>
  The identity of a catalog entry as the claims have it: the string in its \<open>filename\<close>
  array and its source node. And as the loop over \<open>remoteFiles\<close> compares it: the bytes
  from \<open>filename\<close> to the first NUL of the struct, and the source node. The two agree on
  a struct whose \<open>filename\<close> array holds a NUL.
\<close>

definition file_key :: "SharedFile \<Rightarrow> string \<times> macaddr" where
  "file_key f = (cstr (char_array 32 (filename f)), sourceNode f)"

definition mem_key :: "SharedFile \<Rightarrow> u8 list \<times> macaddr" where
  "mem_key f = (takeWhile (\<lambda>b. b \<noteq> 0) (image f), sourceNode f)"

text \<open>An array of 32 characters that holds a NUL.\<close>

definition terminated :: "string \<Rightarrow> bool" where
  "terminated s = (CHR 0x00 \<in> set (char_array 32 s))"

subsection \<open>The MAC string\<close>

text \<open>
  \<open>getMacString\<close>: \<open>snprintf\<close> with \<open>%02X:%02X:%02X:%02X:%02X:%02X\<close>, two upper-case
  hexadecimal digits for each byte. The 17 characters fit the buffer of 18.
\<close>

definition hexdigit :: "nat \<Rightarrow> char" where
  "hexdigit n = ''0123456789ABCDEF'' ! n"

definition hex2 :: "u8 \<Rightarrow> string" where
  "hex2 b = [hexdigit (unat b div 16), hexdigit (unat b mod 16)]"

fun getMacString :: "macaddr \<Rightarrow> string" where
  "getMacString (m0, m1, m2, m3, m4, m5) =
     hex2 m0 @ '':'' @ hex2 m1 @ '':'' @ hex2 m2 @ '':'' @ hex2 m3 @ '':'' @ hex2 m4
       @ '':'' @ hex2 m5"

text \<open>The destination of every \<open>esp_now_send\<close> of the sketch.\<close>

definition broadcastMac :: macaddr where
  "broadcastMac = (0xFF, 0xFF, 0xFF, 0xFF, 0xFF, 0xFF)"

subsection \<open>The send callback\<close>

text \<open>
  The callback given to \<open>esp_now_register_send_cb\<close>: a failed send whose address is a
  key of \<open>sendStatuses\<close> clears \<open>success\<close> and increments \<open>retryCount\<close>, an
  \<open>int\<close>: the increment of the largest \<open>int\<close> wraps around to the smallest. Nothing
  else in the sketch increments \<open>retryCount\<close>.
\<close>

definition send_cb :: "macaddr \<Rightarrow> u8 \<Rightarrow> node_state \<Rightarrow> node_state" where
  "send_cb mac_addr sendStatus st =
     (if sendStatus \<noteq> 0 then
        (let macString = getMacString mac_addr in
         case sendStatuses st macString of
           None \<Rightarrow> st
         | Some s \<Rightarrow>
             st\<lparr>sendStatuses :=
                  (sendStatuses st)(macString \<mapsto>
                     s\<lparr>success := False, retryCount := retryCount s + 1\<rparr>)\<rparr>)
      else st)"

subsection \<open>The file filter\<close>

text \<open>\<open>String::toLowerCase\<close> (\<open>tolower\<close> on every byte) and \<open>String::endsWith\<close>.\<close>

definition toLowerCase :: "string \<Rightarrow> string" where
  "toLowerCase s =
     map (\<lambda>c. let n = (of_char c :: nat) in if 65 \<le> n \<and> n \<le> 90 then char_of (n + 32) else c) s"

definition endsWith :: "string \<Rightarrow> string \<Rightarrow> bool" where
  "endsWith s suffix =
     (length suffix \<le> length s \<and> drop (length s - length suffix) s = suffix)"

definition isAllowedFile :: "string \<Rightarrow> bool" where
  "isAllowedFile fname =
     (let lowerFilename = toLowerCase fname in
      endsWith lowerFilename ''.pdf'' \<or> endsWith lowerFilename ''.epub''
      \<or> endsWith lowerFilename ''.doc'' \<or> endsWith lowerFilename ''.rtf''
      \<or> endsWith lowerFilename ''.txt'')"

subsection \<open>The broadcast\<close>

text \<open>
  What the platform gives one call of \<open>broadcastFiles\<close>: the value of its k-th
  \<open>millis()\<close> read, the return code of its k-th \<open>esp_now_send\<close>, whether
  \<open>SD.open("/")\<close> succeeds, the names and sizes that \<open>openNextFile\<close> yields, the
  global \<open>AP_SSID\<close>, and the bytes that the uninitialised local \<open>sharedFile\<close> holds
  where nothing is written (the last byte of each array, and the padding).
\<close>

record platform =
  millis_at :: "nat \<Rightarrow> u32"
  send_rc :: "nat \<Rightarrow> int"
  root_ok :: bool
  dir_entries :: "(string \<times> u32) list"
  ap_ssid :: string
  indet :: "nat \<Rightarrow> char"
  indet_padding :: "nat \<Rightarrow> string"

text \<open>
  The part of the world a call of \<open>broadcastFiles\<close> changes as it runs: the map
  \<open>sendStatuses\<close>, the number of clock reads so far, and the structs handed to
  \<open>esp_now_send\<close> so far, in order.
\<close>

record bcast =
  statuses :: "string \<rightharpoonup> SendStatus"
  clock_reads :: nat
  sent :: "SharedFile list"

definition millis :: "platform \<Rightarrow> bcast \<Rightarrow> u32 \<times> bcast" where
  "millis e s = (millis_at e (clock_reads s), s\<lparr>clock_reads := Suc (clock_reads s)\<rparr>)"

definition esp_now_send :: "platform \<Rightarrow> SharedFile \<Rightarrow> bcast \<Rightarrow> int \<times> bcast" where
  "esp_now_send e f s = (send_rc e (length (sent s)), s\<lparr>sent := sent s @ [f]\<rparr>)"

text \<open>
  \<open>sendStatuses[k]\<close> of \<open>std::map\<close>: a key that is absent is inserted with a
  value-initialised \<open>SendStatus\<close>; the entry is returned.
\<close>

definition status_default :: SendStatus where
  "status_default = \<lparr>success = False, retryCount = 0, lastTry = 0\<rparr>"

definition status_at :: "(string \<rightharpoonup> SendStatus) \<Rightarrow> string \<Rightarrow> SendStatus" where
  "status_at m k = (case m k of None \<Rightarrow> status_default | Some v \<Rightarrow> v)"

definition subscript :: "string \<Rightarrow> bcast \<Rightarrow> SendStatus \<times> bcast" where
  "subscript k s = (status_at (statuses s) k, s\<lparr>statuses := (statuses s)(k \<mapsto> status_at (statuses s) k)\<rparr>)"

definition set_lastTry :: "string \<Rightarrow> u32 \<Rightarrow> bcast \<Rightarrow> bcast" where
  "set_lastTry k t s =
     s\<lparr>statuses := (statuses s)(k \<mapsto> (status_at (statuses s) k)\<lparr>lastTry := t\<rparr>)\<rparr>"

text \<open>
  The first loop of \<open>broadcastFiles\<close>, over \<open>failedTransmissions\<close>. The result is the
  vector that is left: an entry is erased when its status has \<open>retryCount >= MAX_RETRY\<close>
  (a comparison of two \<open>int\<close>), or when its resend returns 0; otherwise the iterator
  moves on and the entry stays.
\<close>

fun retry_loop :: "platform \<Rightarrow> SharedFile list \<Rightarrow> bcast \<Rightarrow> SharedFile list \<times> bcast" where
  "retry_loop e [] s = ([], s)"
| "retry_loop e (f # rest) s =
     (let macStr = getMacString (sourceNode f);
          (st1, s1) = subscript macStr s
      in if retryCount st1 <s MAX_RETRY then
           (let (now, s2) = millis e s1;
                (st2, s3) = subscript macStr s2
            in if now - lastTry st2 \<ge> 100 then
                 (let (rc, s4) = esp_now_send e f s3
                  in if rc = 0 then
                       (let (now', s5) = millis e s4
                        in retry_loop e rest (set_lastTry macStr now' s5))
                     else (case retry_loop e rest s4 of (kept, s') \<Rightarrow> (f # kept, s')))
               else (case retry_loop e rest s3 of (kept, s') \<Rightarrow> (f # kept, s')))
         else retry_loop e rest s1)"

text \<open>\<open>strncpy(dst, src, n)\<close>: exactly n bytes, the string and then NULs.\<close>

definition strncpy :: "nat \<Rightarrow> string \<Rightarrow> string" where
  "strncpy n src = take n (cstr src @ replicate n (CHR 0x00))"

text \<open>
  The second loop, over the directory: every allowed file is sent as a \<open>SharedFile\<close> of
  this node (\<open>WiFi.macAddress\<close> is \<open>self\<close>); a send that does not return 0 appends the
  struct to \<open>failedTransmissions\<close> and stores a fresh status under the MAC string of its
  source node. \<open>k\<close> counts the directory entries.
\<close>

fun fresh_loop ::
  "platform \<Rightarrow> macaddr \<Rightarrow> nat \<Rightarrow> (string \<times> u32) list \<Rightarrow> SharedFile list \<Rightarrow> bcast
     \<Rightarrow> SharedFile list \<times> bcast" where
  "fresh_loop e self k [] failed s = (failed, s)"
| "fresh_loop e self k ((fileName, fsize) # rest) failed s =
     (if isAllowedFile fileName then
        (let sharedFile =
               \<lparr>filename = strncpy 31 fileName @ [indet e (2 * k)],
                filesize = fsize,
                sourceNode = self,
                nodeSSID = strncpy 31 (ap_ssid e) @ [indet e (2 * k + 1)],
                padding = indet_padding e k\<rparr>;
             (rc, s1) = esp_now_send e sharedFile s
         in if rc \<noteq> 0 then
              (let macStr = getMacString (sourceNode sharedFile);
                   (now, s2) = millis e s1
               in fresh_loop e self (Suc k) rest (failed @ [sharedFile])
                    (s2\<lparr>statuses := (statuses s2)(macStr \<mapsto>
                          \<lparr>success = False, retryCount = 0, lastTry = now\<rparr>)\<rparr>))
            else fresh_loop e self (Suc k) rest failed s1)
      else fresh_loop e self (Suc k) rest failed s)"

text \<open>The retry loop alone, from the state of the node.\<close>

definition retry_phase :: "platform \<Rightarrow> node_state \<Rightarrow> SharedFile list \<times> bcast" where
  "retry_phase e st =
     retry_loop e (failedTransmissions st)
       \<lparr>statuses = sendStatuses st, clock_reads = 0, sent = []\<rparr>"

text \<open>
  \<open>broadcastFiles\<close>: the retry loop, then (when the root directory opens) the loop over
  the files. The second component is what was handed to \<open>esp_now_send\<close>, in order.
\<close>

definition broadcastFiles :: "platform \<Rightarrow> macaddr \<Rightarrow> node_state \<Rightarrow> node_state \<times> SharedFile list" where
  "broadcastFiles e self st =
     (let (kept, s) = retry_phase e st
      in if \<not> root_ok e then
           (st\<lparr>failedTransmissions := kept, sendStatuses := statuses s\<rparr>, sent s)
         else
           (let (failed, s') = fresh_loop e self 0 (dir_entries e) kept s
            in (st\<lparr>failedTransmissions := failed, sendStatuses := statuses s'\<rparr>, sent s')))"

subsection \<open>The liveness sweep\<close>

definition remove_if :: "('a \<Rightarrow> bool) \<Rightarrow> 'a list \<Rightarrow> 'a list" where
  "remove_if pred xs = filter (\<lambda>x. \<not> pred x) xs"

text \<open>The predicate of the sweep: unsigned 32-bit subtraction, as in the sketch.\<close>

definition removing :: "u32 \<Rightarrow> PeerInfo \<Rightarrow> bool" where
  "removing currentTime peer = (currentTime - lastSeen peer > PEER_TIMEOUT)"

definition sweep :: "u32 \<Rightarrow> node_state \<Rightarrow> node_state" where
  "sweep currentTime st = st\<lparr>peers := remove_if (removing currentTime) (peers st)\<rparr>"

text \<open>
  \<open>updateNodeLinking\<close>: \<open>currentTime\<close> is its \<open>millis()\<close> read. The sweep runs on every
  call, the broadcast when \<open>BROADCAST_INTERVAL\<close> has passed.
\<close>

definition updateNodeLinking ::
  "u32 \<Rightarrow> platform \<Rightarrow> macaddr \<Rightarrow> node_state \<Rightarrow> node_state \<times> SharedFile list" where
  "updateNodeLinking currentTime e self st =
     (let st1 = sweep currentTime st
      in if currentTime - lastBroadcast st1 \<ge> BROADCAST_INTERVAL then
           (let (st2, out) = broadcastFiles e self st1
            in (st2\<lparr>lastBroadcast := currentTime\<rparr>, out))
         else (st1, []))"

subsection \<open>Runs of the node\<close>

text \<open>
  What happens to a node: a datagram arrives, the ESP-NOW stack reports the outcome of a
  send, or \<open>loop()\<close> calls \<open>updateNodeLinking\<close>. A run applies a list of events in order;
  it has no result once a step has none.
\<close>

datatype event =
    Received macaddr SharedFile int u32
  | SendReport macaddr u8
  | LoopPass u32 platform

fun step :: "macaddr \<Rightarrow> event \<Rightarrow> node_state \<Rightarrow> node_state option" where
  "step self (Received m data len now) st = onDataReceived m data len now st"
| "step self (SendReport mac_addr sendStatus) st = Some (send_cb mac_addr sendStatus st)"
| "step self (LoopPass currentTime e) st = Some (fst (updateNodeLinking currentTime e self st))"

fun run :: "macaddr \<Rightarrow> event list \<Rightarrow> node_state \<Rightarrow> node_state option" where
  "run self [] st = Some st"
| "run self (ev # evs) st =
     (case step self ev st of None \<Rightarrow> None | Some st' \<Rightarrow> run self evs st')"

subsection \<open>Example nodes and records\<close>

text \<open>
  The sender and the two records of the scenarios: node \<open>AA:BB:CC:DD:EE:FF\<close> advertises
  \<open>notes.txt\<close> with 1024 bytes, later with 2048 bytes, under the label \<open>NODE_07\<close>.
\<close>

definition node07 :: macaddr where
  "node07 = (0xAA, 0xBB, 0xCC, 0xDD, 0xEE, 0xFF)"

definition other_node :: macaddr where
  "other_node = (0x11, 0x22, 0x33, 0x44, 0x55, 0x66)"

definition notes_1024 :: SharedFile where
  "notes_1024 =
     \<lparr>filename = ''notes.txt'' @ replicate 23 (CHR 0x00), filesize = 1024,
      sourceNode = node07, nodeSSID = ''NODE_07'' @ replicate 25 (CHR 0x00),
      padding = [CHR 0x00, CHR 0x00]\<rparr>"

definition notes_2048 :: SharedFile where
  "notes_2048 = notes_1024\<lparr>filesize := 2048\<rparr>"

text \<open>The node after the first record has arrived from \<open>node07\<close> at time 5000.\<close>

definition after_first :: node_state where
  "after_first =
     \<lparr>peers = [\<lparr>mac = node07, lastSeen = 5000, ssid = ''NODE_07''\<rparr>],
      remoteFiles = [notes_1024], sendStatuses = Map.empty,
      failedTransmissions = [], lastBroadcast = 0\<rparr>"

text \<open>
  A node whose first datagram, at time 4000, came from \<open>other_node\<close> and carried
  the record of \<open>node07\<close>: \<open>node07\<close> itself has not been heard.
\<close>

definition after_relay :: node_state where
  "after_relay =
     \<lparr>peers = [\<lparr>mac = other_node, lastSeen = 4000, ssid = ''NODE_07''\<rparr>],
      remoteFiles = [notes_1024], sendStatuses = Map.empty,
      failedTransmissions = [], lastBroadcast = 0\<rparr>"

text \<open>
  Two records of \<open>node07\<close> whose \<open>filename\<close> array holds 32 letters and no NUL, with 1
  and with 2 bytes; and a record whose \<open>nodeSSID\<close> array holds 32 letters and no NUL,
  followed by a padding byte that is not NUL and one that is.
\<close>

definition long_name_1 :: SharedFile where
  "long_name_1 = notes_1024\<lparr>filename := replicate 32 (CHR ''A''), filesize := 1\<rparr>"

definition long_name_2 :: SharedFile where
  "long_name_2 = long_name_1\<lparr>filesize := 2\<rparr>"

text \<open>The node after \<open>long_name_1\<close> has arrived from \<open>node07\<close> at time 5000.\<close>

definition after_long_name :: node_state where
  "after_long_name =
     \<lparr>peers = [\<lparr>mac = node07, lastSeen = 5000, ssid = ''NODE_07''\<rparr>],
      remoteFiles = [long_name_1], sendStatuses = Map.empty,
      failedTransmissions = [], lastBroadcast = 0\<rparr>"

definition long_label :: SharedFile where
  "long_label =
     notes_1024\<lparr>nodeSSID := replicate 32 (CHR ''N''), padding := [CHR ''X'', CHR 0x00]\<rparr>"

text \<open>
  This node, and a platform on which every \<open>esp_now_send\<close> returns 1 (as it does when
  ESP-NOW never initialised), every clock read gives \<open>t\<close>, and the SD card holds one file
  that is not allowed and one that is.
\<close>

definition this_node :: macaddr where
  "this_node = (0x5C, 0xCF, 0x7F, 0x01, 0x02, 0x03)"

definition radio_down :: "u32 \<Rightarrow> platform" where
  "radio_down t =
     \<lparr>millis_at = (\<lambda>_. t), send_rc = (\<lambda>_. 1), root_ok = True,
      dir_entries = [(''photo.jpg'', 9), (''notes.txt'', 1024)],
      ap_ssid = ''PR0J3K7_B00KM4RK_07'', indet = (\<lambda>_. CHR 0x00),
      indet_padding = (\<lambda>_. [CHR 0x00, CHR 0x00])\<rparr>"

text \<open>The struct this node sends for its \<open>notes.txt\<close>.\<close>

definition own_notes :: SharedFile where
  "own_notes =
     \<lparr>filename = ''notes.txt'' @ replicate 23 (CHR 0x00), filesize = 1024,
      sourceNode = this_node,
      nodeSSID = ''PR0J3K7_B00KM4RK_07'' @ replicate 13 (CHR 0x00),
      padding = [CHR 0x00, CHR 0x00]\<rparr>"

text \<open>The node after one pass of \<open>loop()\<close> at time 2000 with the radio down.\<close>

definition one_failure :: node_state where
  "one_failure =
     \<lparr>peers = [], remoteFiles = [],
      sendStatuses = [getMacString this_node
        \<mapsto> \<lparr>success = False, retryCount = 0, lastTry = 2000\<rparr>],
      failedTransmissions = [own_notes], lastBroadcast = 2000\<rparr>"

text \<open>The same node with a status whose \<open>retryCount\<close> is \<open>n\<close>.\<close>

definition counted :: "i32 \<Rightarrow> node_state" where
  "counted n =
     one_failure\<lparr>sendStatuses := [getMacString this_node
        \<mapsto> \<lparr>success = False, retryCount = n, lastTry = 2000\<rparr>]\<rparr>"

text \<open>
  One pass with the radio down, then a failure reported for the destination of the send.
\<close>

definition pass_and_report :: "event list" where
  "pass_and_report = [LoopPass 2000 (radio_down 2000), SendReport broadcastMac 1]"

text \<open>Five passes of \<open>loop()\<close>, two seconds apart, with the radio down all the time.\<close>

definition five_passes :: "event list" where
  "five_passes = map (\<lambda>t. LoopPass t (radio_down t)) [2000, 4000, 6000, 8000, 10000]"

text \<open>Twenty-one datagrams of the right length from twenty-one different addresses.\<close>

definition crowd :: "event list" where
  "crowd = map (\<lambda>i. Received (0x02, 0, 0, 0, 0, of_nat i) notes_1024 sizeof_SharedFile 1000)
             [0..<21]"

text \<open>A node that heard \<open>node07\<close> at time 1000 and \<open>other_node\<close> at time 9000.\<close>

definition two_peers :: node_state where
  "two_peers =
     \<lparr>peers = [\<lparr>mac = node07, lastSeen = 1000, ssid = ''NODE_07''\<rparr>,
               \<lparr>mac = other_node, lastSeen = 9000, ssid = ''NODE_07''\<rparr>],
      remoteFiles = [notes_2048], sendStatuses = Map.empty,
      failedTransmissions = [], lastBroadcast = 0\<rparr>"

section \<open>Lemmas\<close>

subsection \<open>Bytes and characters\<close>

lemma of_char_u8_eq_iff: "(of_char c :: u8) = of_char d \<longleftrightarrow> c = d"
proof
  assume eq: "(of_char c :: u8) = of_char d"
  have lt: "(of_char x :: nat) < 2 ^ 8" for x
    using of_char_mod_256 [of x, where ?'a = nat]
    by (simp add: mod_eq_self_iff_div_eq_0 div_eq_0_iff)
  have "(of_nat (of_char c) :: u8) = of_nat (of_char d)"
    using eq by (simp only: of_nat_of_char)
  then have "(of_char c :: nat) = of_char d"
    by (simp add: word_of_nat_eq_iff take_bit_nat_eq_self lt)
  then show "c = d" by simp
qed simp

lemma of_char_u8_eq_0_iff: "(of_char c :: u8) = 0 \<longleftrightarrow> c = CHR 0x00"
  using of_char_u8_eq_iff [of c "CHR 0x00"] by simp

lemma takeWhile_of_char:
  "takeWhile (\<lambda>b. b \<noteq> 0) (map of_char s :: u8 list) = map of_char (cstr s)"
  by (simp add: cstr_def takeWhile_map comp_def of_char_u8_eq_0_iff)

lemma zero_in_of_char: "(0 :: u8) \<in> set (map of_char s) \<longleftrightarrow> CHR 0x00 \<in> set s"
  by (auto simp: of_char_u8_eq_0_iff)

lemma length_char_array: "length (char_array n s) = n"
  by (simp add: char_array_def)

lemma length_image: "length (image f) = 76"
  by (cases "sourceNode f") (simp add: image_def label_memory_def length_char_array le32_def)

lemma label_has_NUL_image: "CHR 0x00 \<in> set (label_memory f) \<Longrightarrow> 0 \<in> set (image f)"
  by (simp add: image_def zero_in_of_char del: set_map)

subsection \<open>strcmp\<close>

lemma strcmp_walk_result:
  "strcmp_walk a b = Some c \<Longrightarrow>
   c = (takeWhile (\<lambda>x. x \<noteq> 0) a = takeWhile (\<lambda>x. x \<noteq> 0) b)"
  by (induction a b rule: strcmp_walk.induct) (auto split: if_splits)

lemma strcmp_walk_defined:
  "length a = length b \<Longrightarrow> 0 \<in> set b \<Longrightarrow> \<exists>c. strcmp_walk a b = Some c"
  by (induction a b rule: strcmp_walk.induct) auto

lemma strcmp_eq_mem_key:
  assumes "0 \<in> set (image r)"
  shows "strcmp_eq e r = Some (fst (mem_key e) = fst (mem_key r))"
proof -
  obtain c where c: "strcmp_walk (image e) (image r) = Some c"
    using strcmp_walk_defined[of "image e" "image r"] assms by (auto simp: length_image)
  from strcmp_walk_result[OF c] c show ?thesis
    by (simp add: strcmp_eq_def mem_key_def)
qed

lemma update_file_Cons:
  assumes "0 \<in> set (image r)"
  shows "update_file r (e # rest) =
    (if mem_key e = mem_key r then Some (r # rest, True)
     else (case update_file r rest of
             None \<Rightarrow> None
           | Some (rest', found) \<Rightarrow> Some (e # rest', found)))"
  by (auto simp: strcmp_eq_mem_key[OF assms] mem_key_def)

subsection \<open>The two loops of the receive callback\<close>

lemma update_peer_found: "snd (update_peer m now s ps) = (m \<in> mac ` set ps)"
  by (induction ps) (auto split: prod.splits)

lemma update_peer_macs: "map mac (fst (update_peer m now s ps)) = map mac ps"
  by (induction ps) (auto split: prod.splits)

lemma update_peer_absent: "m \<notin> mac ` set ps \<Longrightarrow> fst (update_peer m now s ps) = ps"
  by (induction ps) (auto split: prod.splits)

lemma update_peer_first:
  "i < length ps \<Longrightarrow> mac (ps ! i) = m \<Longrightarrow> \<forall>j<i. mac (ps ! j) \<noteq> m \<Longrightarrow>
   fst (update_peer m now s ps) = ps[i := (ps ! i)\<lparr>lastSeen := now, ssid := s\<rparr>]"
proof (induction ps arbitrary: i)
  case Nil
  then show ?case by simp
next
  case (Cons p ps)
  show ?case
  proof (cases i)
    case 0
    with Cons.prems show ?thesis by simp
  next
    case (Suc k)
    with Cons.prems have "mac p \<noteq> m" by auto
    moreover have "fst (update_peer m now s ps) = ps[k := (ps ! k)\<lparr>lastSeen := now, ssid := s\<rparr>]"
      using Cons.prems Suc by (intro Cons.IH) auto
    ultimately show ?thesis using Suc by (auto split: prod.splits)
  qed
qed

lemma update_file_defined:
  "0 \<in> set (image r) \<Longrightarrow> \<exists>fs' found. update_file r fs = Some (fs', found)"
  by (induction fs) (auto simp: update_file_Cons simp del: update_file.simps(2))

lemma update_file_found:
  "0 \<in> set (image r) \<Longrightarrow> update_file r fs = Some (fs', found) \<Longrightarrow>
   found = (mem_key r \<in> mem_key ` set fs)"
  by (induction fs arbitrary: fs' found)
     (auto simp: update_file_Cons simp del: update_file.simps(2)
        split: if_splits option.splits)

lemma update_file_keys:
  "0 \<in> set (image r) \<Longrightarrow> update_file r fs = Some (fs', found) \<Longrightarrow>
   map mem_key fs' = map mem_key fs"
  by (induction fs arbitrary: fs' found)
     (auto simp: update_file_Cons simp del: update_file.simps(2)
        split: if_splits option.splits)

lemma update_file_absent:
  "0 \<in> set (image r) \<Longrightarrow> update_file r fs = Some (fs', found) \<Longrightarrow>
   mem_key r \<notin> mem_key ` set fs \<Longrightarrow> fs' = fs"
  by (induction fs arbitrary: fs' found)
     (auto simp: update_file_Cons simp del: update_file.simps(2)
        split: if_splits option.splits)


lemma update_file_first:
  "0 \<in> set (image r) \<Longrightarrow> update_file r fs = Some (fs', found) \<Longrightarrow>
   i < length fs \<Longrightarrow> mem_key (fs ! i) = mem_key r \<Longrightarrow>
   \<forall>j<i. mem_key (fs ! j) \<noteq> mem_key r \<Longrightarrow> fs' = fs[i := r]"
proof (induction fs arbitrary: i fs' found)
  case Nil
  then show ?case by simp
next
  case (Cons f fs)
  show ?case
  proof (cases i)
    case 0
    with Cons.prems show ?thesis
      by (simp add: update_file_Cons del: update_file.simps(2))
  next
    case (Suc k)
    with Cons.prems have ne: "mem_key f \<noteq> mem_key r" by auto
    with Cons.prems(1,2) obtain rest' where
      rest: "update_file r fs = Some (rest', found)" and fs': "fs' = f # rest'"
      by (auto simp: update_file_Cons simp del: update_file.simps(2) split: option.splits)
    have "rest' = fs[k := r]"
      using Cons.prems Suc by (intro Cons.IH[OF Cons.prems(1) rest]) auto
    then show ?thesis using Suc fs' by simp
  qed
qed



text \<open>What a datagram of the right length does.\<close>

lemma received_fault:
  "CHR 0x00 \<notin> set (label_memory d) \<Longrightarrow> onDataReceived m d sizeof_SharedFile now st = None"
  by (simp add: onDataReceived_def upto_NUL_def)

lemma received_result:
  assumes "CHR 0x00 \<in> set (label_memory d)"
  obtains fs' found where
    "update_file d (remoteFiles st) = Some (fs', found)"
    "onDataReceived m d sizeof_SharedFile now st =
       Some (st\<lparr>peers :=
                  (if m \<in> mac ` set (peers st)
                   then fst (update_peer m now (cstr (label_memory d)) (peers st))
                   else peers st @ [\<lparr>mac = m, lastSeen = now, ssid = cstr (label_memory d)\<rparr>]),
                remoteFiles := (if found then fs' else fs' @ [d])\<rparr>)"
proof -
  have z: "0 \<in> set (image d)" using assms by (rule label_has_NUL_image)
  obtain fs' found where u: "update_file d (remoteFiles st) = Some (fs', found)"
    using update_file_defined[OF z] by blast
  have "onDataReceived m d sizeof_SharedFile now st =
       Some (st\<lparr>peers :=
                  (if m \<in> mac ` set (peers st)
                   then fst (update_peer m now (cstr (label_memory d)) (peers st))
                   else peers st @ [\<lparr>mac = m, lastSeen = now, ssid = cstr (label_memory d)\<rparr>]),
                remoteFiles := (if found then fs' else fs' @ [d])\<rparr>)"
    using assms z u update_peer_found[of m now "cstr (label_memory d)" "peers st"]
      update_peer_absent[of m "peers st" now "cstr (label_memory d)"]
    by (auto simp: onDataReceived_def upto_NUL_def cstr_def Let_def split: prod.splits)
  with u show thesis by (rule that)
qed

lemma wrong_length_received:
  "len \<noteq> sizeof_SharedFile \<Longrightarrow> onDataReceived m d len now st = Some st"
  by (simp add: onDataReceived_def)

lemma scheduler_fields_received:
  assumes "onDataReceived m d len now st = Some st'"
  shows "sendStatuses st' = sendStatuses st"
    "failedTransmissions st' = failedTransmissions st"
    "lastBroadcast st' = lastBroadcast st"
  using assms
  by (auto simp: onDataReceived_def Let_def split: prod.splits option.splits if_splits)

subsection \<open>Terminated arrays\<close>

lemma cstr_append_NUL: "CHR 0x00 \<in> set xs \<Longrightarrow> cstr (xs @ ys) = cstr xs"
  by (simp add: cstr_def takeWhile_append1[where x = "CHR 0x00"])

lemma takeWhile_image_terminated:
  "terminated (filename f) \<Longrightarrow>
   takeWhile (\<lambda>b. b \<noteq> 0) (image f) = map of_char (cstr (char_array 32 (filename f)))"
proof -
  assume "terminated (filename f)"
  then have "(0 :: u8) \<in> set (map of_char (char_array 32 (filename f)))"
    by (simp only: zero_in_of_char terminated_def)
  then have "takeWhile (\<lambda>b. b \<noteq> 0) (image f)
      = takeWhile (\<lambda>b. b \<noteq> 0) (map of_char (char_array 32 (filename f)) :: u8 list)"
    unfolding image_def by (intro takeWhile_append1[where x = 0]) auto
  then show ?thesis by (simp only: takeWhile_of_char)
qed

lemma length_takeWhile_stops:
  "x \<in> set xs \<Longrightarrow> \<not> P x \<Longrightarrow> length (takeWhile P xs) < length xs"
  by (induction xs) auto

lemma length_cstr_terminated: "terminated s \<Longrightarrow> length (cstr (char_array 32 s)) < 32"
  using length_takeWhile_stops[of "CHR 0x00" "char_array 32 s" "\<lambda>c. c \<noteq> CHR 0x00"]
  by (simp add: terminated_def cstr_def length_char_array)

lemma cstr_unterminated: "\<not> terminated s \<Longrightarrow> cstr (char_array 32 s) = char_array 32 s"
  by (auto simp: terminated_def cstr_def takeWhile_eq_all_conv)

lemma takeWhile_image_unterminated:
  assumes "\<not> terminated (filename f)"
  shows "32 \<le> length (takeWhile (\<lambda>b. b \<noteq> 0) (image f))"
proof -
  have "\<And>x. x \<in> set (map of_char (char_array 32 (filename f)) :: u8 list) \<Longrightarrow> x \<noteq> 0"
    using assms zero_in_of_char[of "char_array 32 (filename f)"] by (auto simp: terminated_def)
  then have "takeWhile (\<lambda>b. b \<noteq> 0) (image f)
      = map of_char (char_array 32 (filename f))
        @ takeWhile (\<lambda>b. b \<noteq> 0) (le32 (filesize f) @ mac_bytes (sourceNode f)
            @ map of_char (label_memory f))"
    unfolding image_def by (rule takeWhile_append2)
  then show ?thesis by (simp add: length_char_array)
qed

lemma map_of_char_inj: "(map of_char s :: u8 list) = map of_char t \<longleftrightarrow> s = t"
  by (rule inj_map_eq_map) (simp add: inj_on_def of_char_u8_eq_iff)

text \<open>
  Against a record whose file name ends inside its array, \<open>strcmp\<close> and \<open>memcmp\<close>
  compare the two identity keys.
\<close>

lemma key_relation:
  assumes "terminated (filename r)"
  shows "(mem_key e = mem_key r) = (file_key e = file_key r)"
proof (cases "terminated (filename e)")
  case True
  then show ?thesis using assms
    by (simp add: mem_key_def file_key_def takeWhile_image_terminated map_of_char_inj)
next
  case False
  have "length (takeWhile (\<lambda>b. b \<noteq> 0) (image r)) < 32"
    using assms by (simp add: takeWhile_image_terminated length_cstr_terminated)
  with takeWhile_image_unterminated[OF False]
  have "takeWhile (\<lambda>b. b \<noteq> 0) (image e) \<noteq> takeWhile (\<lambda>b. b \<noteq> 0) (image r)" by auto
  moreover have "length (cstr (char_array 32 (filename e))) = 32"
    using False by (simp add: cstr_unterminated length_char_array)
  then have "cstr (char_array 32 (filename e)) \<noteq> cstr (char_array 32 (filename r))"
    using length_cstr_terminated[OF assms] by auto
  ultimately show ?thesis by (simp add: mem_key_def file_key_def)
qed

lemma terminated_label:
  assumes "terminated (nodeSSID d)"
  shows "CHR 0x00 \<in> set (label_memory d)"
    and "cstr (label_memory d) = cstr (char_array 32 (nodeSSID d))"
  using assms by (simp_all add: terminated_def label_memory_def cstr_append_NUL)

subsection \<open>The example records\<close>

lemma takeWhile_replicate_append:
  "P x \<Longrightarrow> takeWhile P (replicate n x @ ys) = replicate n x @ takeWhile P ys"
  by (induction n) simp_all

lemma arrays_notes:
  "char_array 32 (filename notes_1024) = ''notes.txt'' @ replicate 23 (CHR 0x00)"
  "char_array 32 (nodeSSID notes_1024) = ''NODE_07'' @ replicate 25 (CHR 0x00)"
  "char_array 2 (padding notes_1024) = [CHR 0x00, CHR 0x00]"
  by (simp_all add: char_array_def notes_1024_def eval_nat_numeral)

lemma terminated_notes:
  "terminated (filename notes_1024)" "terminated (nodeSSID notes_1024)"
  "terminated (filename notes_2048)" "terminated (nodeSSID notes_2048)"
  by (simp_all add: terminated_def notes_2048_def arrays_notes)

lemma cstr_notes:
  "cstr (char_array 32 (filename notes_1024)) = ''notes.txt''"
  "cstr (char_array 32 (nodeSSID notes_1024)) = ''NODE_07''"
  by (simp_all add: arrays_notes cstr_def)

lemma file_key_notes:
  "file_key notes_1024 = (''notes.txt'', node07)"
  "file_key notes_2048 = (''notes.txt'', node07)"
  by (simp_all add: file_key_def notes_2048_def cstr_notes) (simp_all add: notes_1024_def)

lemma label_notes:
  "CHR 0x00 \<in> set (label_memory notes_1024)"
  "cstr (label_memory notes_1024) = ''NODE_07''"
  "CHR 0x00 \<in> set (label_memory notes_2048)"
  "cstr (label_memory notes_2048) = ''NODE_07''"
  using terminated_label[OF terminated_notes(2)] terminated_label[OF terminated_notes(4)]
  by (simp_all add: cstr_notes) (simp_all add: notes_2048_def cstr_notes)

lemma arrays_long_name:
  "char_array 32 (filename long_name_1) = replicate 32 (CHR ''A'')"
  "char_array 32 (filename long_name_2) = replicate 32 (CHR ''A'')"
  by (simp_all add: char_array_def long_name_1_def long_name_2_def)

lemma file_key_long_name:
  "file_key long_name_1 = (replicate 32 (CHR ''A''), node07)"
  "file_key long_name_2 = (replicate 32 (CHR ''A''), node07)"
  by (simp_all add: file_key_def arrays_long_name cstr_def)
     (simp_all add: long_name_1_def long_name_2_def notes_1024_def)

lemma mem_key_long_name:
  "fst (mem_key long_name_1) = replicate 32 65 @ [1]"
  "fst (mem_key long_name_2) = replicate 32 65 @ [2]"
  by (simp_all add: mem_key_def image_def arrays_long_name le32_def takeWhile_replicate_append)
     (simp_all add: long_name_1_def long_name_2_def drop_bit_eq_div)

lemma label_long_name:
  "CHR 0x00 \<in> set (label_memory long_name_1)"
  "cstr (label_memory long_name_1) = ''NODE_07''"
  "CHR 0x00 \<in> set (label_memory long_name_2)"
  "cstr (label_memory long_name_2) = ''NODE_07''"
  using label_notes(1,2)
  by (simp_all add: label_memory_def long_name_1_def long_name_2_def)

lemma label_long_label:
  "\<not> terminated (nodeSSID long_label)"
  "cstr (char_array 32 (nodeSSID long_label)) = replicate 32 (CHR ''N'')"
  "CHR 0x00 \<in> set (label_memory long_label)"
  "cstr (label_memory long_label) = replicate 32 (CHR ''N'') @ ''X''"
  by (simp_all add: terminated_def label_memory_def long_label_def char_array_def cstr_def
        takeWhile_replicate_append)

subsection \<open>Receiving the example records\<close>

lemma received_eval:
  assumes "CHR 0x00 \<in> set (label_memory d)"
    and "update_file d (remoteFiles st) = Some (fs', found)"
  shows "onDataReceived m d sizeof_SharedFile now st =
       Some (st\<lparr>peers :=
                  (if m \<in> mac ` set (peers st)
                   then fst (update_peer m now (cstr (label_memory d)) (peers st))
                   else peers st @ [\<lparr>mac = m, lastSeen = now, ssid = cstr (label_memory d)\<rparr>]),
                remoteFiles := (if found then fs' else fs' @ [d])\<rparr>)"
  using received_result[OF assms(1), of st m now] assms(2) by (metis option.inject prod.inject)

lemma update_file_single:
  "0 \<in> set (image r) \<Longrightarrow>
   update_file r [e] = Some (if mem_key e = mem_key r then ([r], True) else ([e], False))"
  by (simp add: update_file_Cons del: update_file.simps(2))


lemma relay_reached:
  "onDataReceived other_node notes_1024 sizeof_SharedFile 4000 init_state = Some after_relay"
  using received_eval[OF label_notes(1), of init_state "[]" False other_node 4000]
  by (simp add: init_state_def after_relay_def label_notes)

lemma two_peers_reached:
  "run this_node [Received node07 notes_1024 76 1000, Received other_node notes_2048 76 9000]
       init_state
     = Some two_peers"
proof -
  let ?st1 = "\<lparr>peers = [\<lparr>mac = node07, lastSeen = 1000, ssid = ''NODE_07''\<rparr>],
      remoteFiles = [notes_1024], sendStatuses = Map.empty,
      failedTransmissions = [], lastBroadcast = 0\<rparr>"
  have len: "(76 :: int) = sizeof_SharedFile" by (simp add: sizeof_SharedFile_def)
  have one: "onDataReceived node07 notes_1024 sizeof_SharedFile 1000 init_state = Some ?st1"
    using received_eval[OF label_notes(1), of init_state "[]" False node07 1000]
    by (simp add: init_state_def label_notes)
  have "mem_key notes_1024 = mem_key notes_2048"
    using key_relation[OF terminated_notes(3), of notes_1024] by (simp add: file_key_notes)
  then have "update_file notes_2048 (remoteFiles ?st1) = Some ([notes_2048], True)"
    by (simp add: update_file_single label_has_NUL_image label_notes del: update_file.simps)
  from received_eval[OF label_notes(3) this, of other_node 9000]
  have two: "onDataReceived other_node notes_2048 sizeof_SharedFile 9000 ?st1 = Some two_peers"
    by (simp add: two_peers_def label_notes node07_def other_node_def)
  show ?thesis by (simp add: len one two)
qed

lemma relay_received:
  "onDataReceived node07 notes_1024 sizeof_SharedFile 6000 after_relay
     = Some \<lparr>peers = [\<lparr>mac = other_node, lastSeen = 4000, ssid = ''NODE_07''\<rparr>,
                       \<lparr>mac = node07, lastSeen = 6000, ssid = ''NODE_07''\<rparr>],
             remoteFiles = [notes_1024], sendStatuses = Map.empty,
             failedTransmissions = [], lastBroadcast = 0\<rparr>"
proof -
  have "update_file notes_1024 (remoteFiles after_relay) = Some ([notes_1024], True)"
    by (simp add: after_relay_def update_file_single label_has_NUL_image label_notes
          del: update_file.simps)
  from received_eval[OF label_notes(1) this, of node07 6000] show ?thesis
    by (simp add: after_relay_def label_notes node07_def other_node_def)
qed

lemma long_name_received:
  "onDataReceived node07 long_name_2 sizeof_SharedFile 6000 after_long_name
     = Some \<lparr>peers = [\<lparr>mac = node07, lastSeen = 6000, ssid = ''NODE_07''\<rparr>],
             remoteFiles = [long_name_1, long_name_2], sendStatuses = Map.empty,
             failedTransmissions = [], lastBroadcast = 0\<rparr>"
proof -
  have "fst (mem_key long_name_1) \<noteq> fst (mem_key long_name_2)"
    by (simp add: mem_key_long_name)
  then have "mem_key long_name_1 \<noteq> mem_key long_name_2" by auto
  then have "update_file long_name_2 (remoteFiles after_long_name) = Some ([long_name_1], False)"
    by (simp add: after_long_name_def update_file_single label_has_NUL_image label_long_name
          del: update_file.simps)
  from received_eval[OF label_long_name(3) this, of node07 6000] show ?thesis
    by (simp add: after_long_name_def label_long_name)
qed

lemma first_long_name_received:
  "onDataReceived node07 long_name_1 sizeof_SharedFile 5000 init_state = Some after_long_name"
  using received_eval[OF label_long_name(1), of init_state "[]" False node07 5000]
  by (simp add: init_state_def after_long_name_def label_long_name)

lemma long_label_received:
  "onDataReceived node07 long_label sizeof_SharedFile 5000 init_state
     = Some \<lparr>peers = [\<lparr>mac = node07, lastSeen = 5000, ssid = replicate 32 (CHR ''N'') @ ''X''\<rparr>],
             remoteFiles = [long_label], sendStatuses = Map.empty,
             failedTransmissions = [], lastBroadcast = 0\<rparr>"
  using received_eval[OF label_long_label(3), of init_state "[]" False node07 5000]
  by (simp add: init_state_def label_long_label)

subsection \<open>What each operation leaves alone\<close>

lemma send_cb_frame:
  "peers (send_cb a b st) = peers st"
  "remoteFiles (send_cb a b st) = remoteFiles st"
  "failedTransmissions (send_cb a b st) = failedTransmissions st"
  "lastBroadcast (send_cb a b st) = lastBroadcast st"
  by (simp_all add: send_cb_def Let_def split: option.splits)

lemma broadcastFiles_frame:
  "peers (fst (broadcastFiles e self st)) = peers st"
  "remoteFiles (fst (broadcastFiles e self st)) = remoteFiles st"
  "lastBroadcast (fst (broadcastFiles e self st)) = lastBroadcast st"
  by (simp_all add: broadcastFiles_def Let_def split: prod.splits)

lemma sweep_frame:
  "remoteFiles (sweep t st) = remoteFiles st"
  "sendStatuses (sweep t st) = sendStatuses st"
  "failedTransmissions (sweep t st) = failedTransmissions st"
  "lastBroadcast (sweep t st) = lastBroadcast st"
  "peers (sweep t st) = remove_if (removing t) (peers st)"
  by (simp_all add: sweep_def)

lemma updateNodeLinking_cases:
  "fst (updateNodeLinking t e self st) = sweep t st
   \<or> fst (updateNodeLinking t e self st)
        = (fst (broadcastFiles e self (sweep t st)))\<lparr>lastBroadcast := t\<rparr>"
  by (simp add: updateNodeLinking_def Let_def split: prod.splits)

lemma updateNodeLinking_remoteFiles:
  "remoteFiles (fst (updateNodeLinking t e self st)) = remoteFiles st"
  using updateNodeLinking_cases[of t e self st]
  by (auto simp: broadcastFiles_frame sweep_frame)

lemma updateNodeLinking_peers:
  "peers (fst (updateNodeLinking t e self st)) = remove_if (removing t) (peers st)"
  using updateNodeLinking_cases[of t e self st]
  by (auto simp: broadcastFiles_frame sweep_frame)

lemma received_cases:
  assumes "onDataReceived m d len now st = Some st'"
  obtains "len \<noteq> sizeof_SharedFile" "st' = st"
  | fs' found where "len = sizeof_SharedFile" "0 \<in> set (image d)"
      "update_file d (remoteFiles st) = Some (fs', found)"
      "peers st' = (if m \<in> mac ` set (peers st)
                   then fst (update_peer m now (cstr (label_memory d)) (peers st))
                   else peers st @ [\<lparr>mac = m, lastSeen = now, ssid = cstr (label_memory d)\<rparr>])"
      "remoteFiles st' = (if found then fs' else fs' @ [d])"
proof (cases "len = sizeof_SharedFile")
  case False
  with assms have "st' = st" by (simp add: wrong_length_received)
  with False show ?thesis by (rule that(1))
next
  case True
  have nul: "CHR 0x00 \<in> set (label_memory d)"
    using assms True received_fault[of d m now st] by auto
  then have z: "0 \<in> set (image d)" by (rule label_has_NUL_image)
  from nul obtain fs' found where
    u: "update_file d (remoteFiles st) = Some (fs', found)" and
    r: "onDataReceived m d sizeof_SharedFile now st =
       Some (st\<lparr>peers :=
                  (if m \<in> mac ` set (peers st)
                   then fst (update_peer m now (cstr (label_memory d)) (peers st))
                   else peers st @ [\<lparr>mac = m, lastSeen = now, ssid = cstr (label_memory d)\<rparr>]),
                remoteFiles := (if found then fs' else fs' @ [d])\<rparr>)"
    by (rule received_result)
  from r assms True have
    "st' = st\<lparr>peers :=
                  (if m \<in> mac ` set (peers st)
                   then fst (update_peer m now (cstr (label_memory d)) (peers st))
                   else peers st @ [\<lparr>mac = m, lastSeen = now, ssid = cstr (label_memory d)\<rparr>]),
                remoteFiles := (if found then fs' else fs' @ [d])\<rparr>"
    by simp
  then have "peers st' = (if m \<in> mac ` set (peers st)
                   then fst (update_peer m now (cstr (label_memory d)) (peers st))
                   else peers st @ [\<lparr>mac = m, lastSeen = now, ssid = cstr (label_memory d)\<rparr>])"
    and "remoteFiles st' = (if found then fs' else fs' @ [d])"
    by simp_all
  with True z u show ?thesis by (rule that(2))
qed

subsection \<open>Invariants of a run\<close>

text \<open>
  What the catalog keeps apart is what \<open>strcmp\<close> and \<open>memcmp\<close> see: the bytes from the
  start of the struct to the first NUL, and the source node.
\<close>

lemma step_mem_keys_distinct:
  assumes "step self ev st = Some st'" and "distinct (map mem_key (remoteFiles st))"
  shows "distinct (map mem_key (remoteFiles st'))"
proof (cases ev)
  case (Received m d len now)
  with assms(1) have "onDataReceived m d len now st = Some st'" by simp
  then show ?thesis
  proof (cases rule: received_cases)
    case 1
    then show ?thesis using assms(2) by simp
  next
    case (2 fs' found)
    have "map mem_key fs' = map mem_key (remoteFiles st)"
      using 2(2,3) by (rule update_file_keys)
    moreover have "found = (mem_key d \<in> mem_key ` set (remoteFiles st))"
      using 2(2,3) by (rule update_file_found)
    ultimately show ?thesis using assms(2) 2(5) by auto
  qed
next
  case (SendReport a b)
  then show ?thesis using assms by (auto simp: send_cb_frame)
next
  case (LoopPass t e)
  then show ?thesis using assms by (auto simp: updateNodeLinking_remoteFiles)
qed

lemma run_mem_keys_distinct:
  "run self evs st = Some st' \<Longrightarrow> distinct (map mem_key (remoteFiles st)) \<Longrightarrow>
   distinct (map mem_key (remoteFiles st'))"
proof (induction evs arbitrary: st)
  case Nil
  then show ?case by simp
next
  case (Cons ev evs)
  from Cons.prems(1) obtain st1 where
    s: "step self ev st = Some st1" and r: "run self evs st1 = Some st'"
    by (auto split: option.splits)
  from step_mem_keys_distinct[OF s Cons.prems(2)] show ?case by (rule Cons.IH[OF r])
qed

subsection \<open>New senders\<close>

lemma new_senders_appended:
  "distinct ms \<Longrightarrow> set ms \<inter> mac ` set (peers st) = {} \<Longrightarrow> CHR 0x00 \<in> set (label_memory d) \<Longrightarrow>
   \<exists>st'. run self (map (\<lambda>m. Received m d sizeof_SharedFile now) ms) st = Some st'
     \<and> map mac (peers st') = map mac (peers st) @ ms"
proof (induction ms arbitrary: st)
  case Nil
  then show ?case by simp
next
  case (Cons m ms)
  from Cons.prems(2) have new: "m \<notin> mac ` set (peers st)" by simp
  obtain fs' found where
    r: "onDataReceived m d sizeof_SharedFile now st =
       Some (st\<lparr>peers :=
                  (if m \<in> mac ` set (peers st)
                   then fst (update_peer m now (cstr (label_memory d)) (peers st))
                   else peers st @ [\<lparr>mac = m, lastSeen = now, ssid = cstr (label_memory d)\<rparr>]),
                remoteFiles := (if found then fs' else fs' @ [d])\<rparr>)"
    using Cons.prems(3) by (rule received_result)
  define st1 where "st1 = st\<lparr>peers := peers st @ [\<lparr>mac = m, lastSeen = now, ssid = cstr (label_memory d)\<rparr>],
                remoteFiles := (if found then fs' else fs' @ [d])\<rparr>"
  have s: "onDataReceived m d sizeof_SharedFile now st = Some st1"
    unfolding r st1_def using new by simp
  have p: "map mac (peers st1) = map mac (peers st) @ [m]" by (simp add: st1_def)
  have "mac ` set (peers st1) = insert m (mac ` set (peers st))" by (simp add: st1_def)
  moreover have "m \<notin> set ms" and dm: "distinct ms" using Cons.prems(1) by simp_all
  moreover have "set ms \<inter> mac ` set (peers st) = {}" using Cons.prems(2) by simp
  ultimately have "set ms \<inter> mac ` set (peers st1) = {}" by simp
  from Cons.IH[OF dm this Cons.prems(3)] obtain st' where
    r': "run self (map (\<lambda>m. Received m d sizeof_SharedFile now) ms) st1 = Some st'" and
    p': "map mac (peers st') = map mac (peers st1) @ ms"
    by blast
  have "run self (map (\<lambda>m. Received m d sizeof_SharedFile now) (m # ms)) st = Some st'"
    by (simp add: s r')
  moreover have "map mac (peers st') = map mac (peers st) @ m # ms"
    by (simp add: p p')
  ultimately show ?case by blast
qed

lemma step_macs_distinct:
  assumes "step self ev st = Some st'" and "distinct (map mac (peers st))"
  shows "distinct (map mac (peers st'))"
proof (cases ev)
  case (Received m d len now)
  with assms(1) have "onDataReceived m d len now st = Some st'" by simp
  then show ?thesis
  proof (cases rule: received_cases)
    case 1
    then show ?thesis using assms(2) by simp
  next
    case (2 fs' found)
    then show ?thesis using assms(2) by (auto simp: update_peer_macs)
  qed
next
  case (SendReport a b)
  then show ?thesis using assms by (auto simp: send_cb_frame)
next
  case (LoopPass t e)
  then show ?thesis using assms
    by (auto simp: updateNodeLinking_peers remove_if_def distinct_map_filter)
qed

lemma run_macs_distinct:
  "run self evs st = Some st' \<Longrightarrow> distinct (map mac (peers st)) \<Longrightarrow>
   distinct (map mac (peers st'))"
proof (induction evs arbitrary: st)
  case Nil
  then show ?case by simp
next
  case (Cons ev evs)
  from Cons.prems(1) obtain st1 where
    s: "step self ev st = Some st1" and r: "run self evs st1 = Some st'"
    by (auto split: option.splits)
  from step_macs_distinct[OF s Cons.prems(2)] show ?case by (rule Cons.IH[OF r])
qed

text \<open>The peer list holds only addresses that a datagram of the run came from.\<close>

lemma step_peers_heard:
  assumes "step self ev st = Some st'"
  shows "mac ` set (peers st')
     \<subseteq> mac ` set (peers st) \<union> {m. \<exists>d len now. ev = Received m d len now}"
proof (cases ev)
  case (Received m d len now)
  with assms(1) have "onDataReceived m d len now st = Some st'" by simp
  then show ?thesis
  proof (cases rule: received_cases)
    case 1
    then show ?thesis by auto
  next
    case (2 fs' found)
    have "set (map mac (fst (update_peer m now (cstr (label_memory d)) (peers st))))
        = set (map mac (peers st))"
      by (simp only: update_peer_macs)
    then show ?thesis using 2(4) Received by auto
  qed
next
  case (SendReport a b)
  then show ?thesis using assms by (auto simp: send_cb_frame)
next
  case (LoopPass t e)
  then show ?thesis using assms by (auto simp: updateNodeLinking_peers remove_if_def)
qed

lemma run_peers_heard:
  "run self evs st = Some st' \<Longrightarrow>
   mac ` set (peers st')
     \<subseteq> mac ` set (peers st) \<union> {m. \<exists>d len now. Received m d len now \<in> set evs}"
proof (induction evs arbitrary: st)
  case Nil
  then show ?case by simp
next
  case (Cons ev evs)
  from Cons.prems(1) obtain st1 where
    s: "step self ev st = Some st1" and r: "run self evs st1 = Some st'"
    by (auto split: option.splits)
  have "mac ` set (peers st')
      \<subseteq> mac ` set (peers st1) \<union> {m. \<exists>d len now. Received m d len now \<in> set evs}"
    using r by (rule Cons.IH)
  also have "\<dots> \<subseteq> mac ` set (peers st) \<union> {m. \<exists>d len now. ev = Received m d len now}
      \<union> {m. \<exists>d len now. Received m d len now \<in> set evs}"
    using step_peers_heard[OF s] by blast
  also have "\<dots> \<subseteq> mac ` set (peers st)
      \<union> {m. \<exists>d len now. Received m d len now \<in> set (ev # evs)}"
    by auto
  finally show ?case by simp
qed

lemma unheard_not_in_peers:
  "run self evs init_state = Some st \<Longrightarrow> \<forall>d len now. Received m d len now \<notin> set evs \<Longrightarrow>
   m \<notin> mac ` set (peers st)"
  using run_peers_heard[of self evs init_state st] by (auto simp: init_state_def)

subsection \<open>File names that end inside the array\<close>

lemma update_file_set:
  "0 \<in> set (image r) \<Longrightarrow> update_file r fs = Some (fs', found) \<Longrightarrow>
   set fs' \<subseteq> insert r (set fs)"
  by (induction fs arbitrary: fs' found)
     (auto simp: update_file_Cons simp del: update_file.simps(2)
        split: if_splits option.splits)

text \<open>The catalog holds only structs that a datagram of the run carried.\<close>

lemma step_catalog_received:
  assumes "step self ev st = Some st'"
  shows "set (remoteFiles st')
     \<subseteq> set (remoteFiles st) \<union> {d. \<exists>m len now. ev = Received m d len now}"
proof (cases ev)
  case (Received m d len now)
  with assms(1) have "onDataReceived m d len now st = Some st'" by simp
  then show ?thesis
  proof (cases rule: received_cases)
    case 1
    then show ?thesis by auto
  next
    case (2 fs' found)
    have "set fs' \<subseteq> insert d (set (remoteFiles st))"
      using 2(2,3) by (rule update_file_set)
    moreover have "d \<in> {d. \<exists>m len now. ev = Received m d len now}"
      using Received by blast
    ultimately show ?thesis using 2(5) by (auto split: if_splits)
  qed
next
  case (SendReport a b)
  then show ?thesis using assms by (auto simp: send_cb_frame)
next
  case (LoopPass t e)
  then show ?thesis using assms by (auto simp: updateNodeLinking_remoteFiles)
qed

lemma run_catalog_received:
  "run self evs st = Some st' \<Longrightarrow>
   set (remoteFiles st')
     \<subseteq> set (remoteFiles st) \<union> {d. \<exists>m len now. Received m d len now \<in> set evs}"
proof (induction evs arbitrary: st)
  case Nil
  then show ?case by simp
next
  case (Cons ev evs)
  from Cons.prems(1) obtain st1 where
    s: "step self ev st = Some st1" and r: "run self evs st1 = Some st'"
    by (auto split: option.splits)
  have "set (remoteFiles st')
      \<subseteq> set (remoteFiles st1) \<union> {d. \<exists>m len now. Received m d len now \<in> set evs}"
    using r by (rule Cons.IH)
  also have "\<dots> \<subseteq> set (remoteFiles st) \<union> {d. \<exists>m len now. ev = Received m d len now}
      \<union> {d. \<exists>m len now. Received m d len now \<in> set evs}"
    using step_catalog_received[OF s] by blast
  also have "\<dots> \<subseteq> set (remoteFiles st)
      \<union> {d. \<exists>m len now. Received m d len now \<in> set (ev # evs)}"
    by (simp only: list.simps(15)) blast
  finally show ?case by simp
qed

text \<open>
  As long as every record that arrives has a NUL in its \<open>filename\<close> array, no two
  catalog entries have the same file name and source node.
\<close>

lemma terminated_keys_distinct:
  assumes "run self evs init_state = Some st"
    and "\<forall>m d len now. Received m d len now \<in> set evs \<longrightarrow> terminated (filename d)"
  shows "distinct (map file_key (remoteFiles st))"
proof -
  have mem: "distinct (map mem_key (remoteFiles st))"
    using assms(1) by (rule run_mem_keys_distinct) (simp add: init_state_def)
  have ended: "terminated (filename f)" if "f \<in> set (remoteFiles st)" for f
  proof -
    have "remoteFiles init_state = []" by (simp add: init_state_def)
    with run_catalog_received[OF assms(1)] that
    have "f \<in> {d. \<exists>m len now. Received m d len now \<in> set evs}" by simp blast
    then obtain m len now where "Received m f len now \<in> set evs" by blast
    with assms(2) show ?thesis by blast
  qed
  have "inj_on file_key (set (remoteFiles st))"
  proof (rule inj_onI)
    fix a b
    assume a: "a \<in> set (remoteFiles st)" and b: "b \<in> set (remoteFiles st)"
      and eq: "file_key a = file_key b"
    from key_relation[OF ended[OF b], of a] eq have "mem_key a = mem_key b" by simp
    with mem a b show "a = b" by (metis distinct_map inj_onD)
  qed
  with mem show ?thesis by (simp add: distinct_map)
qed

subsection \<open>Evaluating the examples\<close>

lemma allowed_notes: "isAllowedFile ''notes.txt''"
  by code_simp

lemma not_allowed_photo: "\<not> isAllowedFile ''photo.jpg''"
  by code_simp

lemma key_this_node: "getMacString this_node = ''5C:CF:7F:01:02:03''"
  by (simp add: this_node_def hex2_def hexdigit_def)

lemma strncpy_notes: "strncpy 31 ''notes.txt'' @ [CHR 0x00] = ''notes.txt'' @ replicate 23 (CHR 0x00)"
  by (simp add: strncpy_def cstr_def eval_nat_numeral)

lemma strncpy_ssid: "strncpy 31 ''PR0J3K7_B00KM4RK_07'' @ [CHR 0x00] = ''PR0J3K7_B00KM4RK_07'' @ replicate 13 (CHR 0x00)"
  by (simp add: strncpy_def cstr_def eval_nat_numeral)

subsection \<open>The retry loop, one entry at a time\<close>

lemma status_at_upd_self [simp]: "status_at (m(k \<mapsto> status_at m k)) k' = status_at m k'"
  by (simp add: status_at_def)

lemma status_at_upd_same [simp]: "status_at (m(k \<mapsto> v)) k = v"
  by (simp add: status_at_def)

lemma retry_loop_Cons:
  "retry_loop e (f # rest) \<lparr>statuses = m, clock_reads = c, sent = l\<rparr> =
     (let k = getMacString (sourceNode f);
          m1 = m(k \<mapsto> status_at m k)
      in if \<not> retryCount (status_at m k) <s MAX_RETRY then
           retry_loop e rest \<lparr>statuses = m1, clock_reads = c, sent = l\<rparr>
         else if \<not> 100 \<le> millis_at e c - lastTry (status_at m k) then
           (case retry_loop e rest \<lparr>statuses = m1, clock_reads = Suc c, sent = l\<rparr> of
              (kept, s') \<Rightarrow> (f # kept, s'))
         else if send_rc e (length l) \<noteq> 0 then
           (case retry_loop e rest \<lparr>statuses = m1, clock_reads = Suc c, sent = l @ [f]\<rparr> of
              (kept, s') \<Rightarrow> (f # kept, s'))
         else
           retry_loop e rest
             \<lparr>statuses = m1(k \<mapsto> (status_at m k)\<lparr>lastTry := millis_at e (Suc c)\<rparr>),
              clock_reads = Suc (Suc c), sent = l @ [f]\<rparr>)"
  by (simp add: Let_def subscript_def millis_def esp_now_send_def set_lastTry_def)

lemma fresh_radio_down:
  "fresh_loop (radio_down t) this_node 0 (dir_entries (radio_down t)) q
      \<lparr>statuses = m, clock_reads = c, sent = l\<rparr>
   = (q @ [own_notes],
      \<lparr>statuses = m(getMacString this_node \<mapsto> \<lparr>success = False, retryCount = 0, lastTry = t\<rparr>),
       clock_reads = Suc c, sent = l @ [own_notes]\<rparr>)"
  by (simp add: radio_down_def allowed_notes not_allowed_photo strncpy_notes strncpy_ssid
        own_notes_def esp_now_send_def millis_def Let_def)

lemma first_pass:
  "fst (updateNodeLinking 2000 (radio_down 2000) this_node init_state) = one_failure"
proof -
  have rd: "root_ok (radio_down 2000)" by (simp add: radio_down_def)
  show ?thesis
    by (simp add: one_failure_def updateNodeLinking_def sweep_def remove_if_def init_state_def
        BROADCAST_INTERVAL_def broadcastFiles_def retry_phase_def fresh_radio_down rd Let_def)
qed

lemma one_failure_reached:
  "run this_node [LoopPass 2000 (radio_down 2000)] init_state = Some one_failure"
  by (simp add: first_pass)

lemma retry_radio_down_below:
  "k <s MAX_RETRY \<Longrightarrow> 100 \<le> t - lt \<Longrightarrow>
   retry_loop (radio_down t) [own_notes]
     \<lparr>statuses = [getMacString this_node \<mapsto> \<lparr>success = b, retryCount = k, lastTry = lt\<rparr>],
      clock_reads = 0, sent = []\<rparr>
   = ([own_notes],
      \<lparr>statuses = [getMacString this_node \<mapsto> \<lparr>success = b, retryCount = k, lastTry = lt\<rparr>],
       clock_reads = 1, sent = [own_notes]\<rparr>)"
  by (simp add: retry_loop_Cons Let_def radio_down_def own_notes_def del: retry_loop.simps(2))

lemma retry_loop_step:
  assumes "retry_loop e (f # rest) s = (q, s')"
  obtains s1 q1 where
    "retry_loop e rest s1 = (q1, s')"
    "\<forall>k. retryCount (status_at (statuses s1) k) = retryCount (status_at (statuses s) k)"
    "dom (statuses s1) = insert (getMacString (sourceNode f)) (dom (statuses s))"
    "q = q1 \<or> (q = f # q1
        \<and> retryCount (status_at (statuses s) (getMacString (sourceNode f))) <s MAX_RETRY)"
    "sent s1 = sent s \<or> (sent s1 = sent s @ [f]
        \<and> retryCount (status_at (statuses s) (getMacString (sourceNode f))) <s MAX_RETRY)"
proof -
  obtain m c l where s: "s = \<lparr>statuses = m, clock_reads = c, sent = l\<rparr>"
    by (cases s) auto
  let ?k = "getMacString (sourceNode f)"
  have rc: "retryCount (status_at (m(?k \<mapsto> (status_at m ?k)\<lparr>lastTry := t\<rparr>)) k)
              = retryCount (status_at m k)" for t k
    by (simp add: status_at_def)
  show thesis
    using assms unfolding s retry_loop_Cons Let_def
    by (auto split: if_splits prod.splits simp: rc s intro!: that simp del: retry_loop.simps)
qed

lemma retry_loop_retryCount:
  "retry_loop e fs s = (q, s') \<Longrightarrow>
     retryCount (status_at (statuses s') k) = retryCount (status_at (statuses s) k)"
proof (induction fs arbitrary: s q)
  case Nil
  then show ?case by simp
next
  case (Cons f rest)
  from Cons.prems show ?case
    by (rule retry_loop_step) (simp add: Cons.IH)
qed

lemma retry_loop_dom:
  "retry_loop e fs s = (q, s') \<Longrightarrow>
     dom (statuses s') = dom (statuses s) \<union> (\<lambda>f. getMacString (sourceNode f)) ` set fs"
proof (induction fs arbitrary: s q)
  case Nil
  then show ?case by simp
next
  case (Cons f rest)
  from Cons.prems show ?case
    by (rule retry_loop_step) (simp add: Cons.IH)
qed

lemma retry_loop_kept:
  "retry_loop e fs s = (q, s') \<Longrightarrow> f \<in> set q \<Longrightarrow>
     f \<in> set fs \<and> retryCount (status_at (statuses s) (getMacString (sourceNode f))) <s MAX_RETRY"
proof (induction fs arbitrary: s q)
  case Nil
  then show ?case by simp
next
  case (Cons g rest)
  from Cons.prems(1) show ?case
  proof (rule retry_loop_step)
    fix s1 q1
    assume rec: "retry_loop e rest s1 = (q1, s')"
      and rc: "\<forall>k. retryCount (status_at (statuses s1) k) = retryCount (status_at (statuses s) k)"
      and q: "q = q1 \<or> (q = g # q1
        \<and> retryCount (status_at (statuses s) (getMacString (sourceNode g))) <s MAX_RETRY)"
    show ?thesis
    proof (cases "f \<in> set q1")
      case True
      from Cons.IH[OF rec True] rc show ?thesis by simp
    next
      case False
      with q Cons.prems(2) show ?thesis by auto
    qed
  qed
qed

lemma retry_loop_sent:
  "retry_loop e fs s = (q, s') \<Longrightarrow>
     \<exists>xs. sent s' = sent s @ xs \<and>
       (\<forall>f \<in> set xs. f \<in> set fs
          \<and> retryCount (status_at (statuses s) (getMacString (sourceNode f))) <s MAX_RETRY)"
proof (induction fs arbitrary: s q)
  case Nil
  then show ?case by simp
next
  case (Cons g rest)
  from Cons.prems(1) show ?case
  proof (rule retry_loop_step)
    fix s1 q1
    assume rec: "retry_loop e rest s1 = (q1, s')"
      and rc: "\<forall>k. retryCount (status_at (statuses s1) k) = retryCount (status_at (statuses s) k)"
      and snt: "sent s1 = sent s \<or> (sent s1 = sent s @ [g]
        \<and> retryCount (status_at (statuses s) (getMacString (sourceNode g))) <s MAX_RETRY)"
    from Cons.IH[OF rec] rc obtain xs where
      xs: "sent s' = sent s1 @ xs"
        "\<forall>f \<in> set xs. f \<in> set rest
          \<and> retryCount (status_at (statuses s) (getMacString (sourceNode f))) <s MAX_RETRY"
      by auto
    from snt show ?thesis
    proof
      assume "sent s1 = sent s"
      with xs show ?thesis by auto
    next
      assume "sent s1 = sent s @ [g]
        \<and> retryCount (status_at (statuses s) (getMacString (sourceNode g))) <s MAX_RETRY"
      with xs have "sent s' = sent s @ (g # xs)"
        "\<forall>f \<in> set (g # xs). f \<in> set (g # rest)
          \<and> retryCount (status_at (statuses s) (getMacString (sourceNode f))) <s MAX_RETRY"
        by auto
      then show ?thesis by blast
    qed
  qed
qed

subsection \<open>The loop over the directory\<close>

lemma fresh_loop_appends:
  "fresh_loop e self k ds failed s = (failed', s') \<Longrightarrow>
     \<exists>new. failed' = failed @ new \<and> (\<forall>f \<in> set new. sourceNode f = self)"
proof (induction ds arbitrary: k failed s)
  case Nil
  then show ?case by simp
next
  case (Cons d ds)
  obtain fileName fsize where d: "d = (fileName, fsize)" by (cases d)
  from Cons.prems show ?case
    unfolding d
    by (auto simp: Let_def esp_now_send_def millis_def split: if_splits dest!: Cons.IH)
qed

lemma fresh_loop_dom:
  "fresh_loop e self k ds failed s = (failed', s') \<Longrightarrow>
     dom (statuses s') \<subseteq> insert (getMacString self) (dom (statuses s))"
proof (induction ds arbitrary: k failed s)
  case Nil
  then show ?case by auto
next
  case (Cons d ds)
  obtain fileName fsize where d: "d = (fileName, fsize)" by (cases d)
  from Cons.prems show ?case
    unfolding d
    by (auto simp: Let_def esp_now_send_def millis_def split: if_splits dest!: Cons.IH)
qed

subsection \<open>More evaluations\<close>

lemma two_peers_lists:
  "peers two_peers = [\<lparr>mac = node07, lastSeen = 1000, ssid = ''NODE_07''\<rparr>,
                      \<lparr>mac = other_node, lastSeen = 9000, ssid = ''NODE_07''\<rparr>]"
  "remoteFiles two_peers = [notes_2048]"
  by (simp_all add: two_peers_def)

lemma retry_radio_down_all:
  assumes "m (getMacString this_node) = Some v" "retryCount v <s MAX_RETRY" "100 \<le> t - lastTry v"
  shows "retry_loop (radio_down t) (replicate n own_notes)
     \<lparr>statuses = m, clock_reads = c, sent = l\<rparr>
   = (replicate n own_notes,
      \<lparr>statuses = m, clock_reads = c + n, sent = l @ replicate n own_notes\<rparr>)"
proof (induction n arbitrary: c l)
  case 0
  then show ?case by simp
next
  case (Suc n)
  have own: "getMacString (sourceNode own_notes) = getMacString this_node"
    by (simp add: own_notes_def)
  have rd: "millis_at (radio_down t) c = t" "send_rc (radio_down t) (length l) = 1"
    by (simp_all add: radio_down_def)
  have sa: "status_at m (getMacString this_node) = v"
    using assms(1) by (simp add: status_at_def)
  have m: "m(getMacString this_node \<mapsto> v) = m"
    using assms(1) by (rule map_upd_triv)
  have "retry_loop (radio_down t) (own_notes # replicate n own_notes)
     \<lparr>statuses = m, clock_reads = c, sent = l\<rparr>
    = (case retry_loop (radio_down t) (replicate n own_notes)
              \<lparr>statuses = m, clock_reads = Suc c, sent = l @ [own_notes]\<rparr> of
         (kept, s') \<Rightarrow> (own_notes # kept, s'))"
    using assms(2,3)
    by (simp add: retry_loop_Cons Let_def own sa m rd del: retry_loop.simps(2))
  then show ?case
    by (simp add: Suc.IH replicate_app_Cons_same del: retry_loop.simps(2))
qed

lemma pass_radio_down:
  assumes "BROADCAST_INTERVAL \<le> t - lb" "100 \<le> t - lt"
  shows "fst (updateNodeLinking t (radio_down t) this_node
      \<lparr>peers = [], remoteFiles = [],
       sendStatuses = [getMacString this_node \<mapsto> \<lparr>success = False, retryCount = 0, lastTry = lt\<rparr>],
       failedTransmissions = replicate n own_notes, lastBroadcast = lb\<rparr>)
    = \<lparr>peers = [], remoteFiles = [],
       sendStatuses = [getMacString this_node \<mapsto> \<lparr>success = False, retryCount = 0, lastTry = t\<rparr>],
       failedTransmissions = replicate (Suc n) own_notes, lastBroadcast = t\<rparr>"
proof -
  have rd: "root_ok (radio_down t)" by (simp add: radio_down_def)
  have retry: "retry_loop (radio_down t) (replicate n own_notes)
     \<lparr>statuses = [getMacString this_node \<mapsto> \<lparr>success = False, retryCount = 0, lastTry = lt\<rparr>],
      clock_reads = 0, sent = []\<rparr>
   = (replicate n own_notes,
      \<lparr>statuses = [getMacString this_node \<mapsto> \<lparr>success = False, retryCount = 0, lastTry = lt\<rparr>],
       clock_reads = 0 + n, sent = [] @ replicate n own_notes\<rparr>)"
    using assms(2)
      retry_radio_down_all [of "[getMacString this_node
          \<mapsto> \<lparr>success = False, retryCount = 0, lastTry = lt\<rparr>]"
        "\<lparr>success = False, retryCount = 0, lastTry = lt\<rparr>" t n 0 "[]"]
    by (simp add: MAX_RETRY_def word_sless_alt)
  show ?thesis
    using assms(1)
    by (simp add: updateNodeLinking_def sweep_def remove_if_def broadcastFiles_def
        retry_phase_def retry fresh_radio_down rd Let_def replicate_append_same)
qed

lemma five_passes_eq:
  "run this_node five_passes init_state
    = Some \<lparr>peers = [], remoteFiles = [],
       sendStatuses = [getMacString this_node \<mapsto> \<lparr>success = False, retryCount = 0, lastTry = 10000\<rparr>],
       failedTransmissions = replicate 5 own_notes, lastBroadcast = 10000\<rparr>"
proof -
  have start: "one_failure = \<lparr>peers = [], remoteFiles = [],
      sendStatuses = [getMacString this_node \<mapsto> \<lparr>success = False, retryCount = 0, lastTry = 2000\<rparr>],
      failedTransmissions = replicate 1 own_notes, lastBroadcast = 2000\<rparr>"
    by (simp add: one_failure_def)
  have "run this_node five_passes init_state
      = run this_node (map (\<lambda>t. LoopPass t (radio_down t)) [4000, 6000, 8000, 10000]) one_failure"
    by (simp add: five_passes_def first_pass)
  also have "\<dots> = Some \<lparr>peers = [], remoteFiles = [],
       sendStatuses = [getMacString this_node \<mapsto> \<lparr>success = False, retryCount = 0, lastTry = 10000\<rparr>],
       failedTransmissions = replicate 5 own_notes, lastBroadcast = 10000\<rparr>"
    unfolding start
    by (simp add: pass_radio_down BROADCAST_INTERVAL_def del: replicate.simps)
  finally show ?thesis .
qed

subsection \<open>The keys of the send statuses\<close>

lemma broadcastFiles_own_key:
  assumes own: "\<forall>f \<in> set (failedTransmissions st). sourceNode f = self"
    and keys: "dom (sendStatuses st) \<subseteq> {getMacString self}"
  shows "(\<forall>f \<in> set (failedTransmissions (fst (broadcastFiles e self st))). sourceNode f = self)
    \<and> dom (sendStatuses (fst (broadcastFiles e self st))) \<subseteq> {getMacString self}"
proof -
  obtain kept s where r: "retry_phase e st = (kept, s)" by (cases "retry_phase e st")
  then have loop: "retry_loop e (failedTransmissions st)
      \<lparr>statuses = sendStatuses st, clock_reads = 0, sent = []\<rparr> = (kept, s)"
    by (simp add: retry_phase_def)
  have kept: "\<forall>f \<in> set kept. sourceNode f = self"
    using retry_loop_kept[OF loop] own by blast
  have doms: "dom (statuses s) \<subseteq> {getMacString self}"
    using retry_loop_dom[OF loop] own keys by auto
  show ?thesis
  proof (cases "root_ok e")
    case False
    then show ?thesis using r kept doms by (simp add: broadcastFiles_def)
  next
    case True
    obtain failed s' where f: "fresh_loop e self 0 (dir_entries e) kept s = (failed, s')"
      by (cases "fresh_loop e self 0 (dir_entries e) kept s")
    from fresh_loop_appends[OF f] kept have "\<forall>f \<in> set failed. sourceNode f = self" by auto
    moreover from fresh_loop_dom[OF f] doms have "dom (statuses s') \<subseteq> {getMacString self}" by auto
    ultimately show ?thesis using True r f by (simp add: broadcastFiles_def)
  qed
qed

lemma step_own_key:
  assumes st': "step self ev st = Some st'"
    and own: "\<forall>f \<in> set (failedTransmissions st). sourceNode f = self"
    and keys: "dom (sendStatuses st) \<subseteq> {getMacString self}"
  shows "(\<forall>f \<in> set (failedTransmissions st'). sourceNode f = self)
    \<and> dom (sendStatuses st') \<subseteq> {getMacString self}"
proof (cases ev)
  case (Received m d len now)
  with st' have "onDataReceived m d len now st = Some st'" by simp
  then show ?thesis using own keys by (simp add: scheduler_fields_received)
next
  case (SendReport a b)
  have "dom (sendStatuses (send_cb a b st)) = dom (sendStatuses st)"
    by (auto simp: send_cb_def Let_def split: option.splits if_splits)
  then show ?thesis using SendReport st' own keys by (auto simp: send_cb_frame)
next
  case (LoopPass t e)
  have sw: "\<forall>f \<in> set (failedTransmissions (sweep t st)). sourceNode f = self"
    "dom (sendStatuses (sweep t st)) \<subseteq> {getMacString self}"
    using own keys by (simp_all add: sweep_frame)
  from LoopPass st' have eq: "st' = fst (updateNodeLinking t e self st)" by simp
  from updateNodeLinking_cases[of t e self st] show ?thesis
  proof
    assume "fst (updateNodeLinking t e self st) = sweep t st"
    then show ?thesis using eq sw by simp
  next
    assume "fst (updateNodeLinking t e self st)
        = (fst (broadcastFiles e self (sweep t st)))\<lparr>lastBroadcast := t\<rparr>"
    then show ?thesis using eq broadcastFiles_own_key[OF sw, of e] by simp
  qed
qed

lemma run_own_key:
  "run self evs st = Some st' \<Longrightarrow>
   \<forall>f \<in> set (failedTransmissions st). sourceNode f = self \<Longrightarrow>
   dom (sendStatuses st) \<subseteq> {getMacString self} \<Longrightarrow>
   (\<forall>f \<in> set (failedTransmissions st'). sourceNode f = self)
    \<and> dom (sendStatuses st') \<subseteq> {getMacString self}"
proof (induction evs arbitrary: st)
  case Nil
  then show ?case by simp
next
  case (Cons ev evs)
  from Cons.prems(1) obtain st1 where
    s: "step self ev st = Some st1" and r: "run self evs st1 = Some st'"
    by (auto split: option.splits)
  from step_own_key[OF s Cons.prems(2,3)]
  have "\<forall>f \<in> set (failedTransmissions st1). sourceNode f = self"
    and "dom (sendStatuses st1) \<subseteq> {getMacString self}"
    by blast+
  from Cons.IH[OF r this] show ?case .
qed

lemma send_cb_counts:
  "sendStatus \<noteq> 0 \<Longrightarrow> sendStatuses st (getMacString a) = Some v \<Longrightarrow>
   sendStatuses (send_cb a sendStatus st) (getMacString a)
     = Some (v\<lparr>success := False, retryCount := retryCount v + 1\<rparr>)"
  by (simp add: send_cb_def Let_def)

subsection \<open>Reports for other addresses\<close>

lemma hexdigit_inj: "i < 16 \<Longrightarrow> j < 16 \<Longrightarrow> hexdigit i = hexdigit j \<Longrightarrow> i = j"
proof -
  have d: "distinct ''0123456789ABCDEF''" by simp
  show "i < 16 \<Longrightarrow> j < 16 \<Longrightarrow> hexdigit i = hexdigit j \<Longrightarrow> i = j"
    unfolding hexdigit_def using nth_eq_iff_index_eq[OF d, of i j] by simp
qed

lemma hex2_inj: "hex2 a = hex2 b \<Longrightarrow> a = b"
proof -
  assume h: "hex2 a = hex2 b"
  have lt: "unat a div 16 < 16" "unat b div 16 < 16"
    using unsigned_less[of a, where 'a = nat] unsigned_less[of b, where 'a = nat] by simp_all
  from h have "hexdigit (unat a div 16) = hexdigit (unat b div 16)"
    and "hexdigit (unat a mod 16) = hexdigit (unat b mod 16)"
    by (simp_all add: hex2_def)
  then have "unat a div 16 = unat b div 16" "unat a mod 16 = unat b mod 16"
    using lt by (auto intro: hexdigit_inj)
  then have "unat a = unat b"
    by (metis div_mult_mod_eq)
  then show "a = b" by (simp add: word_unat_eq_iff)
qed

lemma getMacString_inj: "getMacString a = getMacString b \<Longrightarrow> a = b"
proof -
  obtain a0 a1 a2 a3 a4 a5 where a: "a = (a0, a1, a2, a3, a4, a5)" by (cases a)
  obtain b0 b1 b2 b3 b4 b5 where b: "b = (b0, b1, b2, b3, b4, b5)" by (cases b)
  have len: "length (hex2 x) = 2" for x by (simp add: hex2_def)
  assume "getMacString a = getMacString b"
  then have "hex2 a0 = hex2 b0 \<and> hex2 a1 = hex2 b1 \<and> hex2 a2 = hex2 b2
      \<and> hex2 a3 = hex2 b3 \<and> hex2 a4 = hex2 b4 \<and> hex2 a5 = hex2 b5"
    unfolding a b by (simp add: len)
  then show "a = b" unfolding a b by (simp add: hex2_inj)
qed

text \<open>
  The send callback is the only place that increments \<open>retryCount\<close>, and it looks the
  reported address up among the keys, which are MAC strings of this node. So in a run
  where the stack never reports a send for this node's own address, every \<open>retryCount\<close>
  stays 0.
\<close>

lemma count_zero_fresh_status:
  "\<forall>key. retryCount (status_at m key) = 0 \<Longrightarrow>
   retryCount (status_at (m(k \<mapsto> \<lparr>success = b, retryCount = 0, lastTry = t\<rparr>)) key) = 0"
  by (simp add: status_at_def)

lemma fresh_loop_count_zero:
  "fresh_loop e self k ds failed s = (failed', s') \<Longrightarrow>
   \<forall>key. retryCount (status_at (statuses s) key) = 0 \<Longrightarrow>
   \<forall>key. retryCount (status_at (statuses s') key) = 0"
proof (induction ds arbitrary: k failed s)
  case Nil
  then show ?case by auto
next
  case (Cons d ds)
  obtain fileName fsize where d: "d = (fileName, fsize)" by (cases d)
  from Cons.prems(1) obtain failed1 s1 where
    rec: "fresh_loop e self (Suc k) ds failed1 s1 = (failed', s')" and
    s1: "statuses s1 = statuses s
      \<or> statuses s1 = (statuses s)(getMacString self
            \<mapsto> \<lparr>success = False, retryCount = 0, lastTry = millis_at e (clock_reads s)\<rparr>)"
    unfolding d
    by (auto simp: Let_def esp_now_send_def millis_def split: if_splits)
  from s1 Cons.prems(2) have "\<forall>key. retryCount (status_at (statuses s1) key) = 0"
    by (auto simp: count_zero_fresh_status)
  with rec show ?case by (rule Cons.IH)
qed

lemma broadcastFiles_count_zero:
  assumes "\<forall>key. retryCount (status_at (sendStatuses st) key) = 0"
  shows "retryCount (status_at (sendStatuses (fst (broadcastFiles e self st))) key) = 0"
proof -
  obtain kept s where r: "retry_phase e st = (kept, s)" by (cases "retry_phase e st")
  then have loop: "retry_loop e (failedTransmissions st)
      \<lparr>statuses = sendStatuses st, clock_reads = 0, sent = []\<rparr> = (kept, s)"
    by (simp add: retry_phase_def)
  have zero: "\<forall>key. retryCount (status_at (statuses s) key) = 0"
    using retry_loop_retryCount[OF loop] assms by simp
  show ?thesis
  proof (cases "root_ok e")
    case False
    then show ?thesis using r zero by (simp add: broadcastFiles_def)
  next
    case True
    obtain failed s' where f: "fresh_loop e self 0 (dir_entries e) kept s = (failed, s')"
      by (cases "fresh_loop e self 0 (dir_entries e) kept s")
    from fresh_loop_count_zero[OF f zero] show ?thesis
      using True r f by (simp add: broadcastFiles_def)
  qed
qed

lemma step_count_zero:
  assumes st': "step self ev st = Some st'"
    and keys: "dom (sendStatuses st) \<subseteq> {getMacString self}"
    and zero: "\<forall>key. retryCount (status_at (sendStatuses st) key) = 0"
    and elsewhere: "\<forall>a b. ev = SendReport a b \<longrightarrow> a \<noteq> self"
  shows "retryCount (status_at (sendStatuses st') key) = 0"
proof (cases ev)
  case (Received m d len now)
  with st' have "onDataReceived m d len now st = Some st'" by simp
  then show ?thesis using zero by (simp add: scheduler_fields_received)
next
  case (SendReport a b)
  with elsewhere have "getMacString a \<noteq> getMacString self"
    using getMacString_inj by blast
  with keys have "sendStatuses st (getMacString a) = None" by auto
  then have "send_cb a b st = st" by (simp add: send_cb_def)
  then show ?thesis using SendReport st' zero by simp
next
  case (LoopPass t e)
  have sw: "\<forall>key. retryCount (status_at (sendStatuses (sweep t st)) key) = 0"
    using zero by (simp add: sweep_frame)
  from LoopPass st' have eq: "st' = fst (updateNodeLinking t e self st)" by simp
  from updateNodeLinking_cases[of t e self st] show ?thesis
  proof
    assume "fst (updateNodeLinking t e self st) = sweep t st"
    then show ?thesis using eq sw by simp
  next
    assume "fst (updateNodeLinking t e self st)
        = (fst (broadcastFiles e self (sweep t st)))\<lparr>lastBroadcast := t\<rparr>"
    then show ?thesis using eq broadcastFiles_count_zero[OF sw, of e self key] by simp
  qed
qed

lemma run_count_zero:
  "run self evs st = Some st' \<Longrightarrow>
   \<forall>f \<in> set (failedTransmissions st). sourceNode f = self \<Longrightarrow>
   dom (sendStatuses st) \<subseteq> {getMacString self} \<Longrightarrow>
   \<forall>key. retryCount (status_at (sendStatuses st) key) = 0 \<Longrightarrow>
   \<forall>a b. SendReport a b \<in> set evs \<longrightarrow> a \<noteq> self \<Longrightarrow>
   retryCount (status_at (sendStatuses st') key) = 0"
proof (induction evs arbitrary: st)
  case Nil
  then show ?case by simp
next
  case (Cons ev evs)
  from Cons.prems(1) obtain st1 where
    s: "step self ev st = Some st1" and r: "run self evs st1 = Some st'"
    by (auto split: option.splits)
  from step_own_key[OF s Cons.prems(2,3)]
  have own: "\<forall>f \<in> set (failedTransmissions st1). sourceNode f = self"
    and keys: "dom (sendStatuses st1) \<subseteq> {getMacString self}"
    by blast+
  have "\<forall>a b. ev = SendReport a b \<longrightarrow> a \<noteq> self"
    using Cons.prems(5) by (metis list.set_intros(1))
  from step_count_zero[OF s Cons.prems(3,4) this]
  have zero: "\<forall>key. retryCount (status_at (sendStatuses st1) key) = 0" by blast
  have "\<forall>a b. SendReport a b \<in> set evs \<longrightarrow> a \<noteq> self"
    using Cons.prems(5) by (metis list.set_intros(2))
  from Cons.IH[OF r own keys zero this] show ?case .
qed

lemma reports_elsewhere_never_counted:
  "run self evs init_state = Some st \<Longrightarrow>
   \<forall>a b. SendReport a b \<in> set evs \<longrightarrow> a \<noteq> self \<Longrightarrow>
   retryCount (status_at (sendStatuses st) key) = 0"
  by (rule run_count_zero[of self evs init_state])
     (simp_all add: init_state_def status_at_def status_default_def)

text \<open>Every \<open>esp_now_send\<close> of the sketch goes to \<open>broadcastMac\<close>.\<close>

lemma broadcast_reports_never_counted:
  assumes "self \<noteq> broadcastMac"
    and "\<forall>a b. SendReport a b \<in> set evs \<longrightarrow> a = broadcastMac"
    and "run self evs init_state = Some st"
  shows "retryCount (status_at (sendStatuses st) key) = 0"
proof (rule reports_elsewhere_never_counted[OF assms(3)], intro allI impI)
  fix a b
  assume "SendReport a b \<in> set evs"
  with assms(2) have "a = broadcastMac" by blast
  with assms(1) show "a \<noteq> self" by simp
qed

subsection \<open>A report for the broadcast address\<close>

lemma key_broadcastMac: "getMacString broadcastMac = ''FF:FF:FF:FF:FF:FF''"
  by (simp add: broadcastMac_def hex2_def hexdigit_def)

lemma pass_and_report_reached: "run this_node pass_and_report init_state = Some one_failure"
proof -
  have "sendStatuses one_failure (getMacString broadcastMac) = None"
    by (simp add: one_failure_def key_broadcastMac key_this_node)
  then have "send_cb broadcastMac 1 one_failure = one_failure" by (simp add: send_cb_def)
  then show ?thesis by (simp add: pass_and_report_def first_pass)
qed

lemma counted_eq:
  "counted n = \<lparr>peers = [], remoteFiles = [],
      sendStatuses = [getMacString this_node
        \<mapsto> \<lparr>success = False, retryCount = n, lastTry = 2000\<rparr>],
      failedTransmissions = [own_notes], lastBroadcast = 2000\<rparr>"
  by (simp add: counted_def one_failure_def)

section \<open>The claims\<close>

text \<open>
  Claim C1, for records whose file name and label end inside their arrays, and with its
  last part made exact. A datagram of the right length whose \<open>filename\<close> and \<open>nodeSSID\<close>
  arrays each hold a NUL is handled without a read leaving the struct. It upserts the peer
  list under the sender's address: an address that is not in the list is appended with the
  label of the payload and the time of the call, and otherwise the first entry with that
  address gets the label of the payload, and its \<open>lastSeen\<close> advances to the time of the
  call. It upserts the catalog under the file name and the source node of the payload: a
  key that is not in the catalog is appended, and otherwise the first entry with that key
  is replaced by the received struct, size included. So a datagram from an address that is
  not in the list (as every address is that has not been heard in the run,
  \<open>unheard_not_in_peers\<close>) adds one peer, and it adds one catalog entry exactly when its
  key is not in the catalog yet.
\<close>

theorem receive_upserts:
  assumes "len = sizeof_SharedFile"
    and "terminated (filename d)" and "terminated (nodeSSID d)"
  shows "\<exists>st'. onDataReceived m d len now st = Some st'
     \<and> (m \<notin> mac ` set (peers st) \<longrightarrow>
          peers st' = peers st
            @ [\<lparr>mac = m, lastSeen = now, ssid = cstr (char_array 32 (nodeSSID d))\<rparr>])
     \<and> (\<forall>i<length (peers st). mac (peers st ! i) = m \<and> (\<forall>j<i. mac (peers st ! j) \<noteq> m) \<longrightarrow>
          peers st' = (peers st)[i := (peers st ! i)
            \<lparr>lastSeen := now, ssid := cstr (char_array 32 (nodeSSID d))\<rparr>])
     \<and> (file_key d \<notin> file_key ` set (remoteFiles st) \<longrightarrow>
          remoteFiles st' = remoteFiles st @ [d])
     \<and> (\<forall>i<length (remoteFiles st).
          file_key (remoteFiles st ! i) = file_key d
          \<and> (\<forall>j<i. file_key (remoteFiles st ! j) \<noteq> file_key d) \<longrightarrow>
          remoteFiles st' = (remoteFiles st)[i := d])"
proof -
  let ?label = "cstr (char_array 32 (nodeSSID d))"
  have nul: "CHR 0x00 \<in> set (label_memory d)" and label: "cstr (label_memory d) = ?label"
    using terminated_label[OF assms(3)] by simp_all
  have z: "0 \<in> set (image d)" using nul by (rule label_has_NUL_image)
  have keys: "(mem_key f = mem_key d) = (file_key f = file_key d)" for f
    using assms(2) by (rule key_relation)
  obtain fs' found where
    u: "update_file d (remoteFiles st) = Some (fs', found)" and
    r: "onDataReceived m d sizeof_SharedFile now st =
       Some (st\<lparr>peers :=
                  (if m \<in> mac ` set (peers st)
                   then fst (update_peer m now (cstr (label_memory d)) (peers st))
                   else peers st @ [\<lparr>mac = m, lastSeen = now, ssid = cstr (label_memory d)\<rparr>]),
                remoteFiles := (if found then fs' else fs' @ [d])\<rparr>)"
    using nul by (rule received_result)
  define st' where "st' =
    st\<lparr>peers := (if m \<in> mac ` set (peers st)
                   then fst (update_peer m now ?label (peers st))
                   else peers st @ [\<lparr>mac = m, lastSeen = now, ssid = ?label\<rparr>]),
       remoteFiles := (if found then fs' else fs' @ [d])\<rparr>"
  have ret: "onDataReceived m d len now st = Some st'"
    using r assms(1) by (simp add: st'_def label)
  have new_peer: "peers st' = peers st @ [\<lparr>mac = m, lastSeen = now, ssid = ?label\<rparr>]"
    if "m \<notin> mac ` set (peers st)"
    using that by (simp add: st'_def)
  have old_peer: "peers st' = (peers st)[i := (peers st ! i)\<lparr>lastSeen := now, ssid := ?label\<rparr>]"
    if "i < length (peers st)" "mac (peers st ! i) = m" "\<forall>j<i. mac (peers st ! j) \<noteq> m" for i
  proof -
    have "m \<in> mac ` set (peers st)" using that(1,2) by (metis imageI nth_mem)
    then show ?thesis using that by (simp add: st'_def update_peer_first)
  qed
  have new_file: "remoteFiles st' = remoteFiles st @ [d]"
    if "file_key d \<notin> file_key ` set (remoteFiles st)"
  proof -
    have absent: "mem_key d \<notin> mem_key ` set (remoteFiles st)"
      using that keys by (metis (no_types, lifting) image_iff)
    then have "\<not> found" using update_file_found[OF z u] by simp
    moreover have "fs' = remoteFiles st" using z u absent by (rule update_file_absent)
    ultimately show ?thesis by (simp add: st'_def)
  qed
  have old_file: "remoteFiles st' = (remoteFiles st)[i := d]"
    if "i < length (remoteFiles st)" "file_key (remoteFiles st ! i) = file_key d"
       "\<forall>j<i. file_key (remoteFiles st ! j) \<noteq> file_key d" for i
  proof -
    have here: "mem_key (remoteFiles st ! i) = mem_key d" using that(2) keys by simp
    have before: "\<forall>j<i. mem_key (remoteFiles st ! j) \<noteq> mem_key d" using that(3) keys by simp
    have "mem_key d \<in> mem_key ` set (remoteFiles st)" using that(1) here by (metis imageI nth_mem)
    then have "found" using update_file_found[OF z u] by simp
    moreover have "fs' = (remoteFiles st)[i := d]"
      using z u that(1) here before by (rule update_file_first)
    ultimately show ?thesis by (simp add: st'_def)
  qed
  show ?thesis using ret new_peer old_peer new_file old_file by blast
qed

text \<open>
  The two scenarios: the first record from \<open>AA:BB:CC:DD:EE:FF\<close> on an empty node, and
  the second record of the same file with 2048 bytes.
\<close>

theorem receive_upserts_witness:
  "(76 :: int) = sizeof_SharedFile
   \<and> terminated (filename notes_1024) \<and> terminated (nodeSSID notes_1024)
   \<and> terminated (filename notes_2048) \<and> terminated (nodeSSID notes_2048)
   \<and> (\<exists>st'. onDataReceived node07 notes_1024 76 5000 init_state = Some st'
        \<and> peers st' = [\<lparr>mac = node07, lastSeen = 5000, ssid = ''NODE_07''\<rparr>]
        \<and> remoteFiles st' = [notes_1024])
   \<and> (\<exists>st'. onDataReceived node07 notes_2048 76 7000 after_first = Some st'
        \<and> peers st' = [\<lparr>mac = node07, lastSeen = 7000, ssid = ''NODE_07''\<rparr>]
        \<and> remoteFiles st' = [notes_2048])"
proof -
  have len: "(76 :: int) = sizeof_SharedFile" by (simp add: sizeof_SharedFile_def)
  have label: "cstr (char_array 32 (nodeSSID notes_2048)) = ''NODE_07''"
    by (simp add: notes_2048_def cstr_notes)
  have first: "\<exists>st'. onDataReceived node07 notes_1024 76 5000 init_state = Some st'
        \<and> peers st' = [\<lparr>mac = node07, lastSeen = 5000, ssid = ''NODE_07''\<rparr>]
        \<and> remoteFiles st' = [notes_1024]"
    using receive_upserts [OF len terminated_notes(1,2), of node07 5000 init_state]
    by (simp add: init_state_def cstr_notes)
  have second: "\<exists>st'. onDataReceived node07 notes_2048 76 7000 after_first = Some st'
        \<and> peers st' = [\<lparr>mac = node07, lastSeen = 7000, ssid = ''NODE_07''\<rparr>]
        \<and> remoteFiles st' = [notes_2048]"
    using receive_upserts [OF len terminated_notes(3,4), of node07 7000 after_first]
    by (simp add: after_first_def label file_key_notes)
  from len first second show ?thesis
    by (intro conjI terminated_notes)
qed

text \<open>
  Claim C1 as it is written fails. First, the only datagram so far came from
  \<open>other_node\<close> and carried the record of \<open>node07\<close>; now \<open>node07\<close>, never heard before,
  sends its record itself: one peer is added, and no catalog entry, since the key is in the
  catalog. Second, the catalog holds \<open>long_name_1\<close>, whose \<open>filename\<close> array has no NUL,
  and \<open>long_name_2\<close> arrives, with the same file name and source node and another size:
  \<open>strcmp\<close> reads on into the bytes of \<open>filesize\<close>, so the record is appended where an
  upsert under (file name, source node) replaces the entry. Third, the \<open>nodeSSID\<close> array of
  \<open>long_label\<close> has no NUL: the name the peer gets is the 32 bytes of the array and the
  padding byte behind it.
\<close>

theorem unseen_sender_known_key:
  "onDataReceived other_node notes_1024 sizeof_SharedFile 4000 init_state = Some after_relay
   \<and> node07 \<notin> mac ` set (peers after_relay)
   \<and> remoteFiles after_relay = [notes_1024]
   \<and> onDataReceived node07 notes_1024 sizeof_SharedFile 6000 after_relay
       = Some \<lparr>peers = [\<lparr>mac = other_node, lastSeen = 4000, ssid = ''NODE_07''\<rparr>,
                         \<lparr>mac = node07, lastSeen = 6000, ssid = ''NODE_07''\<rparr>],
               remoteFiles = [notes_1024], sendStatuses = Map.empty,
               failedTransmissions = [], lastBroadcast = 0\<rparr>
   \<and> onDataReceived node07 long_name_1 sizeof_SharedFile 5000 init_state = Some after_long_name
   \<and> remoteFiles after_long_name = [long_name_1]
   \<and> file_key long_name_1 = file_key long_name_2
   \<and> onDataReceived node07 long_name_2 sizeof_SharedFile 6000 after_long_name
       = Some \<lparr>peers = [\<lparr>mac = node07, lastSeen = 6000, ssid = ''NODE_07''\<rparr>],
               remoteFiles = [long_name_1, long_name_2], sendStatuses = Map.empty,
               failedTransmissions = [], lastBroadcast = 0\<rparr>
   \<and> cstr (char_array 32 (nodeSSID long_label)) = replicate 32 (CHR ''N'')
   \<and> onDataReceived node07 long_label sizeof_SharedFile 5000 init_state
       = Some \<lparr>peers = [\<lparr>mac = node07, lastSeen = 5000,
                          ssid = replicate 32 (CHR ''N'') @ ''X''\<rparr>],
               remoteFiles = [long_label], sendStatuses = Map.empty,
               failedTransmissions = [], lastBroadcast = 0\<rparr>"
proof -
  have "node07 \<notin> mac ` set (peers after_relay)"
    by (simp add: after_relay_def node07_def other_node_def)
  moreover have "remoteFiles after_relay = [notes_1024]" by (simp add: after_relay_def)
  moreover have "remoteFiles after_long_name = [long_name_1]" by (simp add: after_long_name_def)
  moreover have "file_key long_name_1 = file_key long_name_2" by (simp add: file_key_long_name)
  ultimately show ?thesis
    by (intro conjI relay_reached relay_received first_long_name_received long_name_received
          long_label_received label_long_label(2))
qed

text \<open>
  Claim C2 at a failing input. Two datagrams of the right length from \<open>node07\<close>, with the
  same 32 letters in \<open>filename\<close> (no NUL in the array), the same source node, and the
  sizes 1 and 2. \<open>strcmp\<close> on the two names does not stop at the end of the array: it
  reads on into \<open>filesize\<close>, where the structs differ, so the second record is appended.
  The catalog then holds two entries with one file name and one source node.
\<close>

theorem catalog_holds_key_twice:
  "run this_node [Received node07 long_name_1 76 5000, Received node07 long_name_2 76 6000]
       init_state
     = Some \<lparr>peers = [\<lparr>mac = node07, lastSeen = 6000, ssid = ''NODE_07''\<rparr>],
             remoteFiles = [long_name_1, long_name_2], sendStatuses = Map.empty,
             failedTransmissions = [], lastBroadcast = 0\<rparr>
   \<and> char_array 32 (filename long_name_1) = char_array 32 (filename long_name_2)
   \<and> sourceNode long_name_1 = sourceNode long_name_2
   \<and> file_key long_name_1 = file_key long_name_2
   \<and> filesize long_name_1 = 1 \<and> filesize long_name_2 = 2"
proof -
  have len: "(76 :: int) = sizeof_SharedFile" by (simp add: sizeof_SharedFile_def)
  have "run this_node [Received node07 long_name_1 76 5000, Received node07 long_name_2 76 6000]
       init_state
     = Some \<lparr>peers = [\<lparr>mac = node07, lastSeen = 6000, ssid = ''NODE_07''\<rparr>],
             remoteFiles = [long_name_1, long_name_2], sendStatuses = Map.empty,
             failedTransmissions = [], lastBroadcast = 0\<rparr>"
    by (simp add: len first_long_name_received long_name_received)
  moreover have "filesize long_name_1 = 1 \<and> filesize long_name_2 = 2"
    by (simp add: long_name_2_def long_name_1_def)
  moreover have "sourceNode long_name_1 = sourceNode long_name_2"
    by (simp add: long_name_2_def)
  ultimately show ?thesis by (simp add: file_key_long_name arrays_long_name)
qed

text \<open>
  Claim C3. A datagram whose length is not \<open>sizeof(SharedFile)\<close> changes nothing: the
  callback returns, and the whole state of the node, the peer list and the catalog in it,
  stays as it was.
\<close>

theorem wrong_length_dropped:
  "len \<noteq> sizeof_SharedFile \<Longrightarrow> onDataReceived m data len now st = Some st"
  by (simp add: onDataReceived_def)

text \<open>
  A datagram of 75 bytes on a node that holds one peer and one catalog entry.
\<close>

theorem wrong_length_dropped_witness:
  "(75::int) \<noteq> sizeof_SharedFile
   \<and> onDataReceived other_node notes_2048 75 9000 after_first = Some after_first"
  using wrong_length_dropped [of 75 other_node notes_2048 9000 after_first]
  by (simp add: sizeof_SharedFile_def)

text \<open>
  Claim C4. The sweep of \<open>updateNodeLinking\<close> at time \<open>currentTime\<close>: a peer of the
  list with \<open>currentTime - lastSeen > PEER_TIMEOUT\<close> (in unsigned 32-bit arithmetic, as the
  sketch computes it) was in the list before and is not in it after; a peer with
  \<open>currentTime - lastSeen <= PEER_TIMEOUT\<close> is still in it. The list after the sweep is
  the list before without the stale peers, in the same order; and where no two entries
  share an address (as in every state a run reaches, \<open>run_macs_distinct\<close>), the address
  of an evicted peer is gone from the list.
\<close>

theorem sweep_evicts_stale:
  assumes "P \<in> set (peers st)"
  shows "(currentTime - lastSeen P > PEER_TIMEOUT \<longrightarrow>
            P \<notin> set (peers (fst (updateNodeLinking currentTime e self st))))
     \<and> (currentTime - lastSeen P \<le> PEER_TIMEOUT \<longrightarrow>
            P \<in> set (peers (fst (updateNodeLinking currentTime e self st))))
     \<and> (distinct (map mac (peers st)) \<and> currentTime - lastSeen P > PEER_TIMEOUT \<longrightarrow>
            mac P \<notin> mac ` set (peers (fst (updateNodeLinking currentTime e self st))))
     \<and> peers (fst (updateNodeLinking currentTime e self st))
          = filter (\<lambda>Q. currentTime - lastSeen Q \<le> PEER_TIMEOUT) (peers st)"
proof -
  let ?after = "peers (fst (updateNodeLinking currentTime e self st))"
  have after: "?after = filter (\<lambda>Q. currentTime - lastSeen Q \<le> PEER_TIMEOUT) (peers st)"
    by (simp add: updateNodeLinking_peers remove_if_def removing_def not_less)
  have "mac P \<notin> mac ` set ?after"
    if d: "distinct (map mac (peers st))" and stale: "currentTime - lastSeen P > PEER_TIMEOUT"
  proof
    assume "mac P \<in> mac ` set ?after"
    then obtain Q where Q: "Q \<in> set (peers st)" "currentTime - lastSeen Q \<le> PEER_TIMEOUT"
      "mac Q = mac P"
      unfolding after by auto
    from d Q(1,3) assms have "Q = P"
      by (metis distinct_map inj_onD)
    with Q(2) stale show False by simp
  qed
  with after assms show ?thesis by auto
qed

text \<open>
  A sweep at time 11500 over two peers last seen at 1000 and at 9000: the first goes, its
  record and its address, the second stays.
\<close>

theorem sweep_evicts_stale_witness:
  "peers two_peers = [\<lparr>mac = node07, lastSeen = 1000, ssid = ''NODE_07''\<rparr>,
                      \<lparr>mac = other_node, lastSeen = 9000, ssid = ''NODE_07''\<rparr>]
   \<and> distinct (map mac (peers two_peers))
   \<and> (11500 :: u32) - 1000 > PEER_TIMEOUT
   \<and> (11500 :: u32) - 9000 \<le> PEER_TIMEOUT
   \<and> \<lparr>mac = node07, lastSeen = 1000, ssid = ''NODE_07''\<rparr>
        \<notin> set (peers (fst (updateNodeLinking 11500 (radio_down 11500) this_node two_peers)))
   \<and> node07
        \<notin> mac ` set (peers (fst (updateNodeLinking 11500 (radio_down 11500) this_node two_peers)))
   \<and> \<lparr>mac = other_node, lastSeen = 9000, ssid = ''NODE_07''\<rparr>
        \<in> set (peers (fst (updateNodeLinking 11500 (radio_down 11500) this_node two_peers)))"
proof -
  let ?old = "\<lparr>mac = node07, lastSeen = 1000, ssid = ''NODE_07''\<rparr>"
  let ?new = "\<lparr>mac = other_node, lastSeen = 9000, ssid = ''NODE_07''\<rparr>"
  have list: "peers two_peers = [?old, ?new]" by (rule two_peers_lists)
  have dist: "distinct (map mac (peers two_peers))"
    by (simp add: list node07_def other_node_def)
  have stale: "(11500 :: u32) - lastSeen ?old > PEER_TIMEOUT"
    and fresh: "(11500 :: u32) - lastSeen ?new \<le> PEER_TIMEOUT"
    by (simp_all add: PEER_TIMEOUT_def)
  have "?old \<in> set (peers two_peers)" by (simp add: list)
  from sweep_evicts_stale [OF this, of 11500 "radio_down 11500" this_node] dist stale
  have gone: "?old \<notin> set (peers (fst (updateNodeLinking 11500 (radio_down 11500) this_node two_peers)))"
    "mac ?old \<notin> mac ` set (peers (fst (updateNodeLinking 11500 (radio_down 11500) this_node two_peers)))"
    by blast+
  have "?new \<in> set (peers two_peers)" by (simp add: list)
  from sweep_evicts_stale [OF this, of 11500 "radio_down 11500" this_node] fresh
  have kept: "?new \<in> set (peers (fst (updateNodeLinking 11500 (radio_down 11500) this_node two_peers)))"
    by blast
  from list dist stale fresh gone kept show ?thesis by simp
qed

text \<open>
  Claim C5. Every \<open>esp_now_send\<close> of the sketch goes to \<open>broadcastMac\<close>, and the send
  callback is handed the destination of the send; the address of a node is not the
  broadcast address. In every state that such a run of the node reaches from the empty
  state, the \<open>retryCount\<close> of every entry of \<open>failedTransmissions\<close> is at most
  \<open>MAX_RETRY\<close> (as a C \<open>int\<close>; \<open>broadcast_reports_never_counted\<close> shows that it is 0).
  And in any state \<open>q\<close> of the node, reachable or not: an entry whose status has
  \<open>retryCount >= MAX_RETRY\<close> when \<open>broadcastFiles\<close> starts is erased by the retry loop
  and is not handed to \<open>esp_now_send\<close> by it; whatever the retry loop sends has
  \<open>retryCount < MAX_RETRY\<close>; the vector after \<open>broadcastFiles\<close> is what the retry loop
  kept, followed by the entries of this pass.
\<close>

theorem retry_bound_gate:
  assumes "self \<noteq> broadcastMac"
    and "\<forall>a b. SendReport a b \<in> set evs \<longrightarrow> a = broadcastMac"
    and "run self evs init_state = Some st"
  shows
    "(\<forall>f \<in> set (failedTransmissions st).
        retryCount (status_at (sendStatuses st) (getMacString (sourceNode f))) \<le>s MAX_RETRY)
     \<and> (\<forall>f \<in> set (failedTransmissions q).
          MAX_RETRY \<le>s retryCount (status_at (sendStatuses q) (getMacString (sourceNode f))) \<longrightarrow>
          f \<notin> set (fst (retry_phase e q)) \<and> f \<notin> set (sent (snd (retry_phase e q))))
     \<and> (\<forall>f \<in> set (sent (snd (retry_phase e q))).
          f \<in> set (failedTransmissions q)
          \<and> retryCount (status_at (sendStatuses q) (getMacString (sourceNode f))) <s MAX_RETRY)
     \<and> (\<exists>new. failedTransmissions (fst (broadcastFiles e self q)) = fst (retry_phase e q) @ new)"
proof -
  have bound: "retryCount (status_at (sendStatuses st) key) \<le>s MAX_RETRY" for key
    using broadcast_reports_never_counted[OF assms, of key]
    by (simp add: MAX_RETRY_def word_sle_eq)
  obtain kept s where r: "retry_phase e q = (kept, s)" by (cases "retry_phase e q")
  then have loop: "retry_loop e (failedTransmissions q)
      \<lparr>statuses = sendStatuses q, clock_reads = 0, sent = []\<rparr> = (kept, s)"
    by (simp add: retry_phase_def)
  have kept: "\<forall>f \<in> set kept.
      retryCount (status_at (sendStatuses q) (getMacString (sourceNode f))) <s MAX_RETRY"
    using retry_loop_kept[OF loop] by simp
  have snt: "\<forall>f \<in> set (sent s). f \<in> set (failedTransmissions q)
      \<and> retryCount (status_at (sendStatuses q) (getMacString (sourceNode f))) <s MAX_RETRY"
    using retry_loop_sent[OF loop] by auto
  have gate: "f \<notin> set kept \<and> f \<notin> set (sent s)"
    if "MAX_RETRY \<le>s retryCount (status_at (sendStatuses q) (getMacString (sourceNode f)))" for f
    using that kept snt by (meson signed.not_less)
  have "\<exists>new. failedTransmissions (fst (broadcastFiles e self q)) = kept @ new"
  proof (cases "root_ok e")
    case False
    then show ?thesis using r by (simp add: broadcastFiles_def)
  next
    case True
    obtain failed s' where f: "fresh_loop e self 0 (dir_entries e) kept s = (failed, s')"
      by (cases "fresh_loop e self 0 (dir_entries e) kept s")
    from fresh_loop_appends[OF f] obtain new where "failed = kept @ new" by blast
    then show ?thesis using True r f by (simp add: broadcastFiles_def)
  qed
  with bound gate snt show ?thesis unfolding r by simp
qed

text \<open>
  One pass with the radio down and the failure reported for the broadcast address: the
  entry is queued with \<open>retryCount = 0\<close>. With \<open>retryCount = 3\<close> the entry is erased
  without a resend; with 2 it is resent.
\<close>

theorem retry_bound_gate_witness:
  "this_node \<noteq> broadcastMac
   \<and> run this_node pass_and_report init_state = Some one_failure
   \<and> failedTransmissions one_failure = [own_notes]
   \<and> retryCount (status_at (sendStatuses one_failure) (getMacString (sourceNode own_notes)))
        \<le>s MAX_RETRY
   \<and> own_notes \<in> set (failedTransmissions (counted 3))
   \<and> MAX_RETRY \<le>s retryCount (status_at (sendStatuses (counted 3))
         (getMacString (sourceNode own_notes)))
   \<and> own_notes \<notin> set (fst (retry_phase (radio_down 4000) (counted 3)))
   \<and> own_notes \<notin> set (sent (snd (retry_phase (radio_down 4000) (counted 3))))
   \<and> own_notes \<in> set (sent (snd (retry_phase (radio_down 4000) (counted 2))))
   \<and> retryCount (status_at (sendStatuses (counted 2))
         (getMacString (sourceNode own_notes))) <s MAX_RETRY"
proof -
  have self: "this_node \<noteq> broadcastMac" by (simp add: this_node_def broadcastMac_def)
  have reports: "\<forall>a b. SendReport a b \<in> set pass_and_report \<longrightarrow> a = broadcastMac"
    by (simp add: pass_and_report_def)
  note gate = retry_bound_gate [OF self reports pass_and_report_reached]
  have ticket: "failedTransmissions one_failure = [own_notes]" by (simp add: one_failure_def)
  have bound: "retryCount (status_at (sendStatuses one_failure)
      (getMacString (sourceNode own_notes))) \<le>s MAX_RETRY"
    using gate [of "counted 3" "radio_down 4000"] ticket by simp
  have queued: "own_notes \<in> set (failedTransmissions (counted 3))"
    by (simp add: counted_eq)
  have at_bound: "MAX_RETRY \<le>s retryCount (status_at (sendStatuses (counted 3))
      (getMacString (sourceNode own_notes)))"
    by (simp add: counted_eq own_notes_def MAX_RETRY_def word_sle_eq)
  have dropped: "own_notes \<notin> set (fst (retry_phase (radio_down 4000) (counted 3)))
      \<and> own_notes \<notin> set (sent (snd (retry_phase (radio_down 4000) (counted 3))))"
    using gate [of "counted 3" "radio_down 4000"] queued at_bound by blast
  have "retry_phase (radio_down 4000) (counted 2)
      = ([own_notes],
         \<lparr>statuses = [getMacString this_node
            \<mapsto> \<lparr>success = False, retryCount = 2, lastTry = 2000\<rparr>],
          clock_reads = 1, sent = [own_notes]\<rparr>)"
    by (simp add: retry_phase_def counted_eq retry_radio_down_below MAX_RETRY_def word_sless_alt
        del: retry_loop.simps(2))
  then have resent: "own_notes \<in> set (sent (snd (retry_phase (radio_down 4000) (counted 2))))"
    by simp
  have below: "retryCount (status_at (sendStatuses (counted 2))
      (getMacString (sourceNode own_notes))) <s MAX_RETRY"
    using gate [of "counted 2" "radio_down 4000"] resent by blast
  from self ticket bound queued at_bound dropped resent below show ?thesis
    by (intro conjI pass_and_report_reached) blast+
qed

text \<open>
  Claim C6 at a failing input. The radio is down. After the first pass the retry vector
  holds \<open>own_notes\<close> with \<open>retryCount = 0\<close> and \<open>lastTry = 2000\<close>. At time 4000 the
  retry loop resends it, the send returns 1, and the entry stays with \<open>retryCount = 0\<close>
  and \<open>lastTry = 2000\<close>: the failure is neither counted nor timed. With no file left on
  the card, the whole of \<open>broadcastFiles\<close> leaves the node as it was. With the file still
  there, the directory loop queues it again in every pass: after five passes the vector
  holds five entries and \<open>retryCount\<close> is still 0.
\<close>

theorem failed_resend_not_counted:
  "run this_node [LoopPass 2000 (radio_down 2000)] init_state = Some one_failure
   \<and> failedTransmissions one_failure = [own_notes]
   \<and> sendStatuses one_failure (getMacString (sourceNode own_notes))
        = Some \<lparr>success = False, retryCount = 0, lastTry = 2000\<rparr>
   \<and> send_rc (radio_down 4000) 0 = 1
   \<and> fst (retry_phase (radio_down 4000) one_failure) = [own_notes]
   \<and> sent (snd (retry_phase (radio_down 4000) one_failure)) = [own_notes]
   \<and> statuses (snd (retry_phase (radio_down 4000) one_failure))
          (getMacString (sourceNode own_notes))
        = Some \<lparr>success = False, retryCount = 0, lastTry = 2000\<rparr>
   \<and> broadcastFiles ((radio_down 4000)\<lparr>dir_entries := []\<rparr>) this_node one_failure
        = (one_failure, [own_notes])
   \<and> run this_node five_passes init_state
        = Some \<lparr>peers = [], remoteFiles = [],
            sendStatuses = [getMacString this_node
              \<mapsto> \<lparr>success = False, retryCount = 0, lastTry = 10000\<rparr>],
            failedTransmissions = replicate 5 own_notes, lastBroadcast = 10000\<rparr>"
proof -
  have retry: "retry_loop e [own_notes]
      \<lparr>statuses = [getMacString this_node
         \<mapsto> \<lparr>success = False, retryCount = 0, lastTry = 2000\<rparr>],
       clock_reads = 0, sent = []\<rparr>
      = ([own_notes],
         \<lparr>statuses = [getMacString this_node
            \<mapsto> \<lparr>success = False, retryCount = 0, lastTry = 2000\<rparr>],
          clock_reads = 1, sent = [own_notes]\<rparr>)"
    if "millis_at e 0 = 4000" "send_rc e 0 = 1" for e
    using that
    by (simp add: retry_loop_Cons Let_def own_notes_def MAX_RETRY_def word_sless_alt del: retry_loop.simps(2))
  have "retry_phase (radio_down 4000) one_failure
      = ([own_notes],
         \<lparr>statuses = [getMacString this_node
            \<mapsto> \<lparr>success = False, retryCount = 0, lastTry = 2000\<rparr>],
          clock_reads = 1, sent = [own_notes]\<rparr>)"
    by (simp add: retry_phase_def one_failure_def retry radio_down_def del: retry_loop.simps(2))
  moreover have "broadcastFiles ((radio_down 4000)\<lparr>dir_entries := []\<rparr>) this_node one_failure
      = (one_failure, [own_notes])"
    by (simp add: broadcastFiles_def retry_phase_def one_failure_def retry radio_down_def
        del: retry_loop.simps(2))
  moreover have "getMacString (sourceNode own_notes) = getMacString this_node"
    by (simp add: own_notes_def)
  moreover have "send_rc (radio_down 4000) 0 = 1" by (simp add: radio_down_def)
  ultimately show ?thesis
    by (simp add: five_passes_eq first_pass one_failure_def del: replicate.simps)
qed



text \<open>
  Claim C8 at a failing input: twenty-one datagrams from twenty-one addresses leave
  twenty-one peers with different addresses in the list, one more than \<open>MAX_PEERS\<close>.
\<close>

theorem peers_exceed_MAX_PEERS:
  "\<exists>st. run this_node crowd init_state = Some st
     \<and> length (peers st) = 21
     \<and> distinct (map mac (peers st))
     \<and> MAX_PEERS < 21"
proof -
  let ?mk = "\<lambda>i::nat. (0x02 :: u8, 0 :: u8, 0 :: u8, 0 :: u8, 0 :: u8, of_nat i :: u8)"
  have c: "crowd = map (\<lambda>m. Received m notes_1024 sizeof_SharedFile 1000) (map ?mk [0..<21])"
    by (simp add: crowd_def)
  have d: "distinct (map ?mk [0..<21])"
    by (simp add: distinct_map inj_on_def word_of_nat_eq_iff take_bit_nat_eq_self)
  have e: "peers init_state = []" by (simp add: init_state_def)
  then have "set (map ?mk [0..<21]) \<inter> mac ` set (peers init_state) = {}" by simp
  from new_senders_appended[OF d this label_notes(1), of this_node 1000]
  obtain st where st: "run this_node crowd init_state = Some st"
    "map mac (peers st) = map mac (peers init_state) @ map ?mk [0..<21]"
    unfolding c by blast
  from st(2) have "map mac (peers st) = map ?mk [0..<21]"
    by (simp only: e list.map append_Nil)
  then have "distinct (map mac (peers st))"
    and "length (map mac (peers st)) = 21"
    using d by simp_all
  with st(1) show ?thesis by (simp add: MAX_PEERS_def)
qed

text \<open>
  Claim C9. \<open>updateNodeLinking\<close> leaves the catalog as it was, whatever the sweep
  evicts and whether or not the broadcast runs; the sweep itself changes the peer list
  and nothing else. So every catalog entry of an evicted peer is still there, unchanged.
\<close>

theorem sweep_keeps_catalog:
  "remoteFiles (fst (updateNodeLinking currentTime e self st)) = remoteFiles st
   \<and> remoteFiles (sweep currentTime st) = remoteFiles st
   \<and> sendStatuses (sweep currentTime st) = sendStatuses st
   \<and> failedTransmissions (sweep currentTime st) = failedTransmissions st
   \<and> lastBroadcast (sweep currentTime st) = lastBroadcast st"
  by (simp add: updateNodeLinking_remoteFiles sweep_frame)

text \<open>
  The sweep at time 11500 evicts \<open>node07\<close>; the catalog entry with source node
  \<open>node07\<close> stays.
\<close>

theorem sweep_keeps_catalog_witness:
  "node07 \<in> mac ` set (peers two_peers)
   \<and> node07 \<notin> mac ` set (peers (fst (updateNodeLinking 11500 (radio_down 11500) this_node two_peers)))
   \<and> sourceNode notes_2048 = node07
   \<and> remoteFiles (fst (updateNodeLinking 11500 (radio_down 11500) this_node two_peers))
        = [notes_2048]"
  using sweep_keeps_catalog [of 11500 "radio_down 11500" this_node two_peers]
  by (simp add: two_peers_lists updateNodeLinking_peers remove_if_def removing_def
        PEER_TIMEOUT_def notes_2048_def notes_1024_def node07_def other_node_def)

text \<open>
  Claim C10. In every state that a run of the node with address \<open>self\<close> reaches from the
  empty state, every entry of \<open>failedTransmissions\<close> has \<open>self\<close> as its source node,
  so the key under which \<open>broadcastFiles\<close> looks up or stores its status is the MAC
  string of \<open>self\<close>; and \<open>sendStatuses\<close> has no other key. All entries of the retry
  vector share that one record.
\<close>

theorem status_keyed_by_own_address:
  assumes "run self evs init_state = Some st"
  shows "(\<forall>f \<in> set (failedTransmissions st).
            sourceNode f = self \<and> getMacString (sourceNode f) = getMacString self)
    \<and> dom (sendStatuses st) \<subseteq> {getMacString self}"
  using run_own_key[OF assms] by (simp add: init_state_def)

text \<open>
  The node after one pass with the radio down: one entry in the vector, one status.
\<close>

theorem status_keyed_by_own_address_witness:
  "run this_node [LoopPass 2000 (radio_down 2000)] init_state = Some one_failure
   \<and> failedTransmissions one_failure = [own_notes]
   \<and> sourceNode own_notes = this_node
   \<and> sendStatuses one_failure (getMacString this_node)
        = Some \<lparr>success = False, retryCount = 0, lastTry = 2000\<rparr>
   \<and> dom (sendStatuses one_failure) \<subseteq> {getMacString this_node}
   \<and> getMacString this_node = ''5C:CF:7F:01:02:03''"
proof -
  have reached: "run this_node [LoopPass 2000 (radio_down 2000)] init_state = Some one_failure"
    by (rule one_failure_reached)
  have keys: "dom (sendStatuses one_failure) \<subseteq> {getMacString this_node}"
    using status_keyed_by_own_address [OF reached] by simp
  have queue: "failedTransmissions one_failure = [own_notes]"
    by (simp add: one_failure_def)
  have own: "sourceNode own_notes = this_node"
    by (simp add: own_notes_def)
  have status: "sendStatuses one_failure (getMacString this_node)
      = Some \<lparr>success = False, retryCount = 0, lastTry = 2000\<rparr>"
    by (simp add: one_failure_def)
  show ?thesis
    by (intro conjI reached queue own status keys key_this_node)
qed

end
